theory Spec2Isabelle
  imports Complex_Main "HOL-Library.Word"
begin

unbundle bit_operations_syntax

section \<open>Channel position masks\<close>

text \<open>
  \<^verbatim>\<open>audio_channel_mask_t\<close> is a 32-bit unsigned value; the loop of
  \<^verbatim>\<open>setInputChannelMask\<close> copies it into an \<^verbatim>\<open>unsigned\<close>.
\<close>

type_synonym audio_channel_mask_t = "32 word"

text \<open>
  Modelled from the spec: the channel position constants are declared in
  \<^verbatim>\<open>channels.h\<close> and the Android audio headers it includes, which are not part of
  the source file \<^verbatim>\<open>ChannelMix.h\<close>. The spec treats them as a fixed external
  vocabulary of single-bit roles in at most 24 position slots. The values below are those
  of the Android audio header; they agree with the sample order the source documents
  (\<^verbatim>\<open>FL FR FC LFE BL BR BC SL SR\<close> by ascending bit value) and with the channel
  indices the fast paths document (quad: FL FR RL RR; 5.1: FL FR FC LFE RL RR;
  7.1: FL FR FC LFE RL RR SL SR).
\<close>

definition AUDIO_CHANNEL_NONE :: audio_channel_mask_t where
  "AUDIO_CHANNEL_NONE = 0x0"

definition AUDIO_CHANNEL_OUT_FRONT_LEFT :: audio_channel_mask_t where
  "AUDIO_CHANNEL_OUT_FRONT_LEFT = 0x1"

definition AUDIO_CHANNEL_OUT_FRONT_RIGHT :: audio_channel_mask_t where
  "AUDIO_CHANNEL_OUT_FRONT_RIGHT = 0x2"

definition AUDIO_CHANNEL_OUT_FRONT_CENTER :: audio_channel_mask_t where
  "AUDIO_CHANNEL_OUT_FRONT_CENTER = 0x4"

definition AUDIO_CHANNEL_OUT_LOW_FREQUENCY :: audio_channel_mask_t where
  "AUDIO_CHANNEL_OUT_LOW_FREQUENCY = 0x8"

definition AUDIO_CHANNEL_OUT_BACK_LEFT :: audio_channel_mask_t where
  "AUDIO_CHANNEL_OUT_BACK_LEFT = 0x10"

definition AUDIO_CHANNEL_OUT_BACK_RIGHT :: audio_channel_mask_t where
  "AUDIO_CHANNEL_OUT_BACK_RIGHT = 0x20"

definition AUDIO_CHANNEL_OUT_BACK_CENTER :: audio_channel_mask_t where
  "AUDIO_CHANNEL_OUT_BACK_CENTER = 0x100"

definition AUDIO_CHANNEL_OUT_SIDE_LEFT :: audio_channel_mask_t where
  "AUDIO_CHANNEL_OUT_SIDE_LEFT = 0x200"

definition AUDIO_CHANNEL_OUT_SIDE_RIGHT :: audio_channel_mask_t where
  "AUDIO_CHANNEL_OUT_SIDE_RIGHT = 0x400"

text \<open>
  A position inside the 24 slots that \<^verbatim>\<open>setInputChannelMask\<close> does not
  classify (it falls into the \<^verbatim>\<open>default\<close> branch of the switch).
\<close>

definition AUDIO_CHANNEL_OUT_TOP_CENTER :: audio_channel_mask_t where
  "AUDIO_CHANNEL_OUT_TOP_CENTER = 0x800"

definition AUDIO_CHANNEL_OUT_STEREO :: audio_channel_mask_t where
  "AUDIO_CHANNEL_OUT_STEREO =
     AUDIO_CHANNEL_OUT_FRONT_LEFT OR AUDIO_CHANNEL_OUT_FRONT_RIGHT"

definition AUDIO_CHANNEL_OUT_QUAD_BACK :: audio_channel_mask_t where
  "AUDIO_CHANNEL_OUT_QUAD_BACK =
     AUDIO_CHANNEL_OUT_FRONT_LEFT OR AUDIO_CHANNEL_OUT_FRONT_RIGHT OR
     AUDIO_CHANNEL_OUT_BACK_LEFT OR AUDIO_CHANNEL_OUT_BACK_RIGHT"

definition AUDIO_CHANNEL_OUT_QUAD_SIDE :: audio_channel_mask_t where
  "AUDIO_CHANNEL_OUT_QUAD_SIDE =
     AUDIO_CHANNEL_OUT_FRONT_LEFT OR AUDIO_CHANNEL_OUT_FRONT_RIGHT OR
     AUDIO_CHANNEL_OUT_SIDE_LEFT OR AUDIO_CHANNEL_OUT_SIDE_RIGHT"

definition AUDIO_CHANNEL_OUT_5POINT1_BACK :: audio_channel_mask_t where
  "AUDIO_CHANNEL_OUT_5POINT1_BACK =
     AUDIO_CHANNEL_OUT_FRONT_LEFT OR AUDIO_CHANNEL_OUT_FRONT_RIGHT OR
     AUDIO_CHANNEL_OUT_FRONT_CENTER OR AUDIO_CHANNEL_OUT_LOW_FREQUENCY OR
     AUDIO_CHANNEL_OUT_BACK_LEFT OR AUDIO_CHANNEL_OUT_BACK_RIGHT"

definition AUDIO_CHANNEL_OUT_5POINT1_SIDE :: audio_channel_mask_t where
  "AUDIO_CHANNEL_OUT_5POINT1_SIDE =
     AUDIO_CHANNEL_OUT_FRONT_LEFT OR AUDIO_CHANNEL_OUT_FRONT_RIGHT OR
     AUDIO_CHANNEL_OUT_FRONT_CENTER OR AUDIO_CHANNEL_OUT_LOW_FREQUENCY OR
     AUDIO_CHANNEL_OUT_SIDE_LEFT OR AUDIO_CHANNEL_OUT_SIDE_RIGHT"

definition AUDIO_CHANNEL_OUT_7POINT1 :: audio_channel_mask_t where
  "AUDIO_CHANNEL_OUT_7POINT1 =
     AUDIO_CHANNEL_OUT_FRONT_LEFT OR AUDIO_CHANNEL_OUT_FRONT_RIGHT OR
     AUDIO_CHANNEL_OUT_FRONT_CENTER OR AUDIO_CHANNEL_OUT_LOW_FREQUENCY OR
     AUDIO_CHANNEL_OUT_BACK_LEFT OR AUDIO_CHANNEL_OUT_BACK_RIGHT OR
     AUDIO_CHANNEL_OUT_SIDE_LEFT OR AUDIO_CHANNEL_OUT_SIDE_RIGHT"

definition FCC_24 :: nat where
  "FCC_24 = 24"

definition FCC_2 :: nat where
  "FCC_2 = 2"

lemmas channel_defs =
  AUDIO_CHANNEL_NONE_def AUDIO_CHANNEL_OUT_FRONT_LEFT_def AUDIO_CHANNEL_OUT_FRONT_RIGHT_def
  AUDIO_CHANNEL_OUT_FRONT_CENTER_def AUDIO_CHANNEL_OUT_LOW_FREQUENCY_def
  AUDIO_CHANNEL_OUT_BACK_LEFT_def AUDIO_CHANNEL_OUT_BACK_RIGHT_def
  AUDIO_CHANNEL_OUT_BACK_CENTER_def AUDIO_CHANNEL_OUT_SIDE_LEFT_def
  AUDIO_CHANNEL_OUT_SIDE_RIGHT_def AUDIO_CHANNEL_OUT_TOP_CENTER_def

lemmas layout_defs =
  AUDIO_CHANNEL_OUT_STEREO_def AUDIO_CHANNEL_OUT_QUAD_BACK_def AUDIO_CHANNEL_OUT_QUAD_SIDE_def
  AUDIO_CHANNEL_OUT_5POINT1_BACK_def AUDIO_CHANNEL_OUT_5POINT1_SIDE_def
  AUDIO_CHANNEL_OUT_7POINT1_def

section \<open>Samples and memory\<close>

text \<open>
  Samples are \<^verbatim>\<open>float\<close> in the source. They are modelled in exact arithmetic as
  \<^typ>\<open>real\<close>: rounding, infinities and NaN are outside the model.

  The mixing functions receive two raw pointers, \<^verbatim>\<open>const float *src\<close> and
  \<^verbatim>\<open>float *dst\<close>, into memory the caller owns. Memory is a store from addresses
  (counted in samples) to samples, and a pointer is an address, so that a call with
  overlapping buffers is a call of the model too.
\<close>

type_synonym sample = real
type_synonym addr = nat
type_synonym store = "addr \<Rightarrow> sample"

section \<open>The mixer state\<close>

text \<open>
  The private members of \<^verbatim>\<open>class ChannelMix\<close>.
  \<^verbatim>\<open>float mMatrix[FCC_24][FCC_2]\<close> is a list of 24 rows, each a pair
  (left gain, right gain).
\<close>

record ChannelMix =
  mMatrix :: "(sample \<times> sample) list"
  mInputChannelMask :: audio_channel_mask_t
  mLastValidChannelIndexPlusOne :: nat
  mInputChannelCount :: nat

definition mOutputChannelCount :: nat where
  "mOutputChannelCount = FCC_2"

text \<open>
  \<^verbatim>\<open>MINUS_3_DB_IN_FLOAT = M_SQRT1_2\<close> stored in a \<^verbatim>\<open>float\<close>: the
  single-precision value nearest to the square root of one half, which is
  \<open>11863283 / 2 ^ 24\<close> (bit pattern \<^verbatim>\<open>0x3F3504F3\<close>).
\<close>

definition MINUS_3_DB_IN_FLOAT :: sample where
  "MINUS_3_DB_IN_FLOAT = 11863283 / 16777216"

definition LIMIT_AMPLITUDE :: sample where
  "LIMIT_AMPLITUDE = 1"

text \<open>\<^verbatim>\<open>fmin(fmax(value, -LIMIT_AMPLITUDE), LIMIT_AMPLITUDE)\<close>\<close>

definition clamp :: "sample \<Rightarrow> sample" where
  "clamp v = min (max v (- LIMIT_AMPLITUDE)) LIMIT_AMPLITUDE"

section \<open>Configuration: \<^verbatim>\<open>setInputChannelMask\<close>\<close>

text \<open>
  One pass of the body of the \<^verbatim>\<open>for\<close> loop: the \<^verbatim>\<open>switch\<close> on the lowest
  set bit writes row \<open>index\<close> of the matrix and, in the three classified cases only,
  \<^verbatim>\<open>mLastValidChannelIndexPlusOne\<close>.
\<close>

definition setInputChannelMask_switch ::
  "ChannelMix \<Rightarrow> nat \<Rightarrow> 32 word \<Rightarrow> ChannelMix" where
  "setInputChannelMask_switch s index lowestBit =
     (if lowestBit = AUDIO_CHANNEL_OUT_FRONT_LEFT
         \<or> lowestBit = AUDIO_CHANNEL_OUT_SIDE_LEFT
         \<or> lowestBit = AUDIO_CHANNEL_OUT_BACK_LEFT
      then s\<lparr>mMatrix := (mMatrix s)[index := (1/2, 0)],
             mLastValidChannelIndexPlusOne := index + 1\<rparr>
      else if lowestBit = AUDIO_CHANNEL_OUT_FRONT_RIGHT
         \<or> lowestBit = AUDIO_CHANNEL_OUT_SIDE_RIGHT
         \<or> lowestBit = AUDIO_CHANNEL_OUT_BACK_RIGHT
      then s\<lparr>mMatrix := (mMatrix s)[index := (0, 1/2)],
             mLastValidChannelIndexPlusOne := index + 1\<rparr>
      else if lowestBit = AUDIO_CHANNEL_OUT_FRONT_CENTER
         \<or> lowestBit = AUDIO_CHANNEL_OUT_LOW_FREQUENCY
         \<or> lowestBit = AUDIO_CHANNEL_OUT_BACK_CENTER
      then s\<lparr>mMatrix := (mMatrix s)
                 [index := (1/2 * MINUS_3_DB_IN_FLOAT, 1/2 * MINUS_3_DB_IN_FLOAT)],
             mLastValidChannelIndexPlusOne := index + 1\<rparr>
      else s\<lparr>mMatrix := (mMatrix s)[index := (0, 0)]\<rparr>)"

text \<open>
  \<^verbatim>\<open>for (unsigned tmp = inputChannelMask; tmp != 0; ++index)\<close> with
  \<^verbatim>\<open>lowestBit = tmp & -(signed)tmp\<close> and \<^verbatim>\<open>tmp ^= lowestBit\<close>.
  The function returns the state and the final \<open>index\<close>.
\<close>

function setInputChannelMask_loop ::
  "ChannelMix \<Rightarrow> nat \<Rightarrow> 32 word \<Rightarrow> ChannelMix \<times> nat" where
  "setInputChannelMask_loop s index tmp =
     (if tmp \<noteq> 0
      then (let lowestBit = tmp AND - tmp
            in setInputChannelMask_loop
                 (setInputChannelMask_switch s index lowestBit) (index + 1) (tmp XOR lowestBit))
      else (s, index))"
  by pat_completeness auto

lemma neg_bit_above_zero_bits:
  fixes x :: "'a::len word"
  assumes z: "\<forall>m<n. \<not> bit x m"
  shows "bit (- x) n = bit x n"
proof -
  have t: "take_bit n x = 0"
    using z by (simp add: bit_eq_iff bit_take_bit_iff)
  have x: "x = push_bit n (drop_bit n x)"
    using bits_ident [of n x] t by simp
  have "- x = push_bit n (- drop_bit n x)"
    using x by (metis push_bit_minus)
  then have "bit (- x) n = bit (push_bit n (- drop_bit n x)) n" by simp
  also have "\<dots> = (possible_bit TYPE('a word) n \<and> odd (- drop_bit n x))"
    by (simp add: bit_push_bit_iff bit_0)
  also have "\<dots> = (possible_bit TYPE('a word) n \<and> odd (drop_bit n x))"
    by simp
  also have "\<dots> = bit (push_bit n (drop_bit n x)) n"
    by (simp add: bit_push_bit_iff bit_0)
  finally show ?thesis using x by simp
qed

lemma lowest_bit_nonzero:
  fixes x :: "'a::len word"
  assumes "x \<noteq> 0"
  shows "x AND - x \<noteq> 0"
proof
  assume e: "x AND - x = 0"
  have "\<not> bit x n" for n
  proof (induction n rule: less_induct)
    case (less n)
    then have "bit (- x) n = bit x n" by (intro neg_bit_above_zero_bits) simp
    moreover have "\<not> bit (x AND - x) n" using e by simp
    ultimately show ?case by (simp add: bit_and_iff)
  qed
  then have "x = 0" by (simp add: bit_eq_iff)
  with assms show False by simp
qed

lemma clear_lowest_bit_minus:
  fixes x :: "'a::len word"
  shows "x XOR (x AND - x) = x - (x AND - x)"
proof -
  have d: "NOT x AND (x AND - x) = 0"
    by (rule bit_eqI) (simp add: bit_and_iff bit_not_iff)
  have "x - (x AND - x) = x AND NOT (x AND - x)"
    using d by (rule disjunctive_diff_eq_and_not)
  also have "\<dots> = x XOR (x AND - x)"
    using d by (rule disjunctive_and_not_eq_xor)
  finally show ?thesis by simp
qed

lemma clear_lowest_bit_less:
  fixes x :: "'a::len word"
  assumes "x \<noteq> 0"
  shows "x XOR (x AND - x) < x"
proof -
  have "x AND - x \<le> x" by (rule word_and_le2)
  moreover have "x AND - x \<noteq> 0" using assms by (rule lowest_bit_nonzero)
  ultimately have "\<not> x \<le> x - (x AND - x)"
    by (simp add: sub_wrap not_less)
  then have "x - (x AND - x) < x"
    by simp
  then show ?thesis by (simp add: clear_lowest_bit_minus)
qed

termination setInputChannelMask_loop
  by (relation "measure (\<lambda>(s, index, tmp). unat tmp)")
     (auto simp add: clear_lowest_bit_less unat_mono)

declare setInputChannelMask_loop.simps [simp del]

text \<open>
  \<^verbatim>\<open>bool setInputChannelMask(audio_channel_mask_t inputChannelMask)\<close>: the
  returned flag and the state after the call. \<^verbatim>\<open>(1 << FCC_24) - 1\<close> has the low
  24 bits set.
\<close>

definition setInputChannelMask ::
  "ChannelMix \<Rightarrow> audio_channel_mask_t \<Rightarrow> bool \<times> ChannelMix" where
  "setInputChannelMask s inputChannelMask =
     (if mInputChannelMask s \<noteq> inputChannelMask
      then (if inputChannelMask AND NOT (push_bit FCC_24 1 - 1) \<noteq> 0
            then (False, s)
            else (let (s', index) = setInputChannelMask_loop s 0 inputChannelMask
                  in (True, s'\<lparr>mInputChannelMask := inputChannelMask,
                               mInputChannelCount := index\<rparr>)))
      else (True, s))"

definition getInputChannelMask :: "ChannelMix \<Rightarrow> audio_channel_mask_t" where
  "getInputChannelMask s = mInputChannelMask s"

text \<open>
  A default-constructed mixer (\<^verbatim>\<open>ChannelMix() = default\<close>): the default member
  initialisers give the mask \<^verbatim>\<open>AUDIO_CHANNEL_NONE\<close> and both counters 0;
  \<^verbatim>\<open>mMatrix\<close> has no initialiser, so its 24 rows hold arbitrary values.
\<close>

definition ChannelMix_default :: "(sample \<times> sample) list \<Rightarrow> ChannelMix" where
  "ChannelMix_default rows =
     \<lparr>mMatrix = rows, mInputChannelMask = AUDIO_CHANNEL_NONE,
      mLastValidChannelIndexPlusOne = 0, mInputChannelCount = 0\<rparr>"

text \<open>
  The states a mixer object can be in: the members are private and change only in
  \<^verbatim>\<open>setInputChannelMask\<close> (which the converting constructor and the five-argument
  \<^verbatim>\<open>process\<close> call), so every state is reached from a default-constructed mixer
  by a sequence of \<^verbatim>\<open>setInputChannelMask\<close> calls.
\<close>

inductive reachable :: "ChannelMix \<Rightarrow> bool" where
  reachable_default:
    "length rows = FCC_24 \<Longrightarrow> reachable (ChannelMix_default rows)"
| reachable_set:
    "reachable s \<Longrightarrow> reachable (snd (setInputChannelMask s inputChannelMask))"

section \<open>Mixing\<close>

text \<open>
  The inner loop of \<^verbatim>\<open>matrixProcess\<close>:
  \<^verbatim>\<open>float ch[2]{}; for (i = 0; i < mLastValidChannelIndexPlusOne; ++i) { ch[0] += mMatrix[i][0] * src[i]; ch[1] += mMatrix[i][1] * src[i]; }\<close>
\<close>

definition matrixFrame :: "ChannelMix \<Rightarrow> store \<Rightarrow> addr \<Rightarrow> sample \<times> sample" where
  "matrixFrame s h src =
     fold (\<lambda>i ch. (fst ch + fst (mMatrix s ! i) * h (src + i),
                    snd ch + snd (mMatrix s ! i) * h (src + i)))
          [0 ..< mLastValidChannelIndexPlusOne s] (0, 0)"

text \<open>
  The \<^verbatim>\<open>while (frameCount)\<close> loop of \<^verbatim>\<open>matrixProcess\<close>. Both sums and both
  accumulations are computed before the two stores of the frame.
\<close>

fun matrixProcess_loop ::
  "ChannelMix \<Rightarrow> bool \<Rightarrow> store \<Rightarrow> addr \<Rightarrow> addr \<Rightarrow> nat \<Rightarrow> store" where
  "matrixProcess_loop s accumulate h src dst 0 = h"
| "matrixProcess_loop s accumulate h src dst (Suc frameCount) =
     (let ch = matrixFrame s h src;
          ch = (if accumulate then (fst ch + h dst, snd ch + h (dst + 1)) else ch);
          h = h(dst := clamp (fst ch));
          h = h(dst + 1 := clamp (snd ch))
      in matrixProcess_loop s accumulate h
           (src + mInputChannelCount s) (dst + mOutputChannelCount) frameCount)"

definition matrixProcess ::
  "ChannelMix \<Rightarrow> store \<Rightarrow> addr \<Rightarrow> addr \<Rightarrow> nat \<Rightarrow> bool \<Rightarrow> bool \<times> store" where
  "matrixProcess s h src dst frameCount accumulate =
     (if mInputChannelMask s = AUDIO_CHANNEL_NONE then (False, h)
      else (True, matrixProcess_loop s accumulate h src dst frameCount))"

text \<open>
  The \<^verbatim>\<open>if constexpr\<close> chain of \<^verbatim>\<open>specificProcess\<close> that computes
  \<^verbatim>\<open>ch[0]\<close> and \<^verbatim>\<open>ch[1]\<close> from one frame; \<open>None\<close> is the final
  \<^verbatim>\<open>else return false\<close>.
\<close>

definition specificFrame :: "nat \<Rightarrow> store \<Rightarrow> addr \<Rightarrow> (sample \<times> sample) option" where
  "specificFrame CHANNEL_COUNT h src =
     (if CHANNEL_COUNT = 4
      then Some (h src + h (src + 2), h (src + 1) + h (src + 3))
      else if CHANNEL_COUNT = 6
      then (let centerPlusLfeContrib = h (src + 2) + h (src + 3)
            in Some (h src + h (src + 4) + centerPlusLfeContrib * MINUS_3_DB_IN_FLOAT,
                     h (src + 1) + h (src + 5) + centerPlusLfeContrib * MINUS_3_DB_IN_FLOAT))
      else if CHANNEL_COUNT = 8
      then (let centerPlusLfeContrib = h (src + 2) + h (src + 3)
            in Some (h src + h (src + 4) + h (src + 6)
                       + centerPlusLfeContrib * MINUS_3_DB_IN_FLOAT,
                     h (src + 1) + h (src + 5) + h (src + 7)
                       + centerPlusLfeContrib * MINUS_3_DB_IN_FLOAT))
      else None)"

text \<open>
  \<^verbatim>\<open>template <int CHANNEL_COUNT, bool ACCUMULATE> specificProcess\<close>. With
  \<^verbatim>\<open>ACCUMULATE\<close> the second store reads \<^verbatim>\<open>dst[1]\<close> after the first store.
\<close>

fun specificProcess ::
  "nat \<Rightarrow> bool \<Rightarrow> store \<Rightarrow> addr \<Rightarrow> addr \<Rightarrow> nat \<Rightarrow> bool \<times> store" where
  "specificProcess CHANNEL_COUNT ACCUMULATE h src dst 0 = (True, h)"
| "specificProcess CHANNEL_COUNT ACCUMULATE h src dst (Suc frameCount) =
     (case specificFrame CHANNEL_COUNT h src of
        None \<Rightarrow> (False, h)
      | Some ch \<Rightarrow>
          (let ch = (fst ch * (1/2), snd ch * (1/2));
               h = (if ACCUMULATE
                    then (let h = h(dst := clamp (h dst + fst ch))
                          in h(dst + 1 := clamp (h (dst + 1) + snd ch)))
                    else (let h = h(dst := clamp (fst ch))
                          in h(dst + 1 := clamp (snd ch))))
           in specificProcess CHANNEL_COUNT ACCUMULATE h
                (src + CHANNEL_COUNT) (dst + mOutputChannelCount) frameCount))"

text \<open>\<^verbatim>\<open>template <bool ACCUMULATE> processSwitch\<close>, with \<^verbatim>\<open>ANDROID_SPECIFIC = true\<close>.\<close>

definition processSwitch ::
  "ChannelMix \<Rightarrow> bool \<Rightarrow> store \<Rightarrow> addr \<Rightarrow> addr \<Rightarrow> nat \<Rightarrow> bool \<times> store" where
  "processSwitch s ACCUMULATE h src dst frameCount =
     (if mInputChannelMask s = AUDIO_CHANNEL_OUT_QUAD_BACK
         \<or> mInputChannelMask s = AUDIO_CHANNEL_OUT_QUAD_SIDE
      then specificProcess 4 ACCUMULATE h src dst frameCount
      else if mInputChannelMask s = AUDIO_CHANNEL_OUT_5POINT1_BACK
         \<or> mInputChannelMask s = AUDIO_CHANNEL_OUT_5POINT1_SIDE
      then specificProcess 6 ACCUMULATE h src dst frameCount
      else if mInputChannelMask s = AUDIO_CHANNEL_OUT_7POINT1
      then specificProcess 8 ACCUMULATE h src dst frameCount
      else matrixProcess s h src dst frameCount ACCUMULATE)"

text \<open>The four-argument \<^verbatim>\<open>process\<close>: the flag returned and the store after the call.\<close>

definition process ::
  "ChannelMix \<Rightarrow> store \<Rightarrow> addr \<Rightarrow> addr \<Rightarrow> nat \<Rightarrow> bool \<Rightarrow> bool \<times> store" where
  "process s h src dst frameCount accumulate =
     (if accumulate then processSwitch s True h src dst frameCount
      else processSwitch s False h src dst frameCount)"

text \<open>
  The five-argument \<^verbatim>\<open>process\<close>:
  \<^verbatim>\<open>setInputChannelMask(inputChannelMask) && process(src, dst, frameCount, accumulate)\<close>.
  It returns the flag, the mixer state and the store after the call.
\<close>

definition process_mask ::
  "ChannelMix \<Rightarrow> store \<Rightarrow> addr \<Rightarrow> addr \<Rightarrow> nat \<Rightarrow> bool \<Rightarrow> audio_channel_mask_t
     \<Rightarrow> bool \<times> ChannelMix \<times> store" where
  "process_mask s h src dst frameCount accumulate inputChannelMask =
     (let (ok, s') = setInputChannelMask s inputChannelMask
      in if ok
         then (let (r, h') = process s' h src dst frameCount accumulate in (r, s', h'))
         else (False, s', h))"

section \<open>Vocabulary of the statements\<close>

text \<open>
  The test \<^verbatim>\<open>inputChannelMask & ~((1 << FCC_24) - 1)\<close> of
  \<^verbatim>\<open>setInputChannelMask\<close>, as a predicate: the mask has no bit outside the 24
  position slots.
\<close>

definition position_mask :: "audio_channel_mask_t \<Rightarrow> bool" where
  "position_mask m = (m AND NOT (push_bit FCC_24 1 - 1) = 0)"

text \<open>A mixer constructed with the stereo mask, \<^verbatim>\<open>ChannelMix(AUDIO_CHANNEL_OUT_STEREO)\<close>.\<close>

definition stereo_mixer :: ChannelMix where
  "stereo_mixer =
     snd (setInputChannelMask (ChannelMix_default (replicate 24 (0, 0)))
            AUDIO_CHANNEL_OUT_STEREO)"

text \<open>
  The two frame loops, \<^verbatim>\<open>matrixProcess\<close> and \<^verbatim>\<open>specificProcess\<close>, have one
  shape: per frame, compute a pair \<open>F h src\<close> from the source frame, store the clamped
  left and right results (added to the old destination samples when accumulating), and
  advance \<open>src\<close> by \<open>c\<close> and \<open>dst\<close> by 2. \<open>frameLoop\<close> is that shape; the lemmas
  \<open>matrixProcess_loop_frameLoop\<close> and \<open>specificProcess_frameLoop\<close> show that both
  loops are instances of it.
\<close>

fun frameLoop ::
  "(store \<Rightarrow> addr \<Rightarrow> sample \<times> sample) \<Rightarrow> nat \<Rightarrow> bool \<Rightarrow> store \<Rightarrow> addr \<Rightarrow> addr \<Rightarrow> nat
     \<Rightarrow> store" where
  "frameLoop F c acc h src dst 0 = h"
| "frameLoop F c acc h src dst (Suc n) =
     frameLoop F c acc
       (h(dst := clamp ((if acc then h dst else 0) + fst (F h src)),
          dst + 1 := clamp ((if acc then h (dst + 1) else 0) + snd (F h src))))
       (src + c) (dst + 2) n"

text \<open>
  The pair \<^verbatim>\<open>ch[0] *= 0.5; ch[1] *= 0.5\<close> that \<^verbatim>\<open>specificProcess\<close> adds to
  the destination for the frame at \<open>p\<close>.
\<close>

definition specificHalf :: "nat \<Rightarrow> store \<Rightarrow> addr \<Rightarrow> sample \<times> sample" where
  "specificHalf c h p =
     (case specificFrame c h p of
        None \<Rightarrow> (0, 0)
      | Some ch \<Rightarrow> (fst ch * (1/2), snd ch * (1/2)))"

text \<open>\<open>F\<close> reads at most the \<open>w\<close> samples starting at the frame's address.\<close>

definition reads_only :: "(store \<Rightarrow> addr \<Rightarrow> sample \<times> sample) \<Rightarrow> nat \<Rightarrow> bool" where
  "reads_only F w = (\<forall>h h' p. (\<forall>i<w. h' (p + i) = h (p + i)) \<longrightarrow> F h' p = F h p)"

text \<open>A mixer constructed with the 5.1 mask.\<close>

definition five_one_mixer :: ChannelMix where
  "five_one_mixer =
     snd (setInputChannelMask (ChannelMix_default (replicate 24 (0, 0)))
            AUDIO_CHANNEL_OUT_5POINT1_BACK)"

text \<open>
  The \<^verbatim>\<open>switch\<close> of \<^verbatim>\<open>processSwitch\<close> as a classification: the channel count
  of the fast path that handles the configured mask, or \<open>None\<close> for the generic path.
\<close>

definition fast_path_channels :: "ChannelMix \<Rightarrow> nat option" where
  "fast_path_channels s =
     (if mInputChannelMask s = AUDIO_CHANNEL_OUT_QUAD_BACK
         \<or> mInputChannelMask s = AUDIO_CHANNEL_OUT_QUAD_SIDE then Some 4
      else if mInputChannelMask s = AUDIO_CHANNEL_OUT_5POINT1_BACK
         \<or> mInputChannelMask s = AUDIO_CHANNEL_OUT_5POINT1_SIDE then Some 6
      else if mInputChannelMask s = AUDIO_CHANNEL_OUT_7POINT1 then Some 8
      else None)"

text \<open>
  What one frame contributes to the two destination samples, on the path that
  \<^verbatim>\<open>processSwitch\<close> takes; the distance between two source frames on that path; and
  the number of source samples a frame reads on that path.
\<close>

definition frameContribution :: "ChannelMix \<Rightarrow> store \<Rightarrow> addr \<Rightarrow> sample \<times> sample" where
  "frameContribution s h p =
     (case fast_path_channels s of
        Some c \<Rightarrow> specificHalf c h p
      | None \<Rightarrow> matrixFrame s h p)"

definition frameStride :: "ChannelMix \<Rightarrow> nat" where
  "frameStride s =
     (case fast_path_channels s of Some c \<Rightarrow> c | None \<Rightarrow> mInputChannelCount s)"

definition frameReads :: "ChannelMix \<Rightarrow> nat" where
  "frameReads s =
     (case fast_path_channels s of
        Some c \<Rightarrow> c
      | None \<Rightarrow> mLastValidChannelIndexPlusOne s)"

text \<open>Memories used to run the functions on concrete inputs.\<close>

definition center_lfe_store :: store where
  "center_lfe_store a = (if a = 2 \<or> a = 3 then 1 else 0)"

definition demo_store :: store where
  "demo_store a = (if a < 4 then 1/2 else 1/4)"

definition loud_store :: store where
  "loud_store a = (if a < 2 then 3/5 else 9/10)"

definition quiet_store :: store where
  "quiet_store a = (if a < 4 then 1/2 else 0)"

text \<open>
  The index of the mirrored partner inside an interleaved buffer of left/right pairs:
  \<open>0 \<leftrightarrow> 1\<close>, \<open>2 \<leftrightarrow> 3\<close>, and so on.
\<close>

definition swap_lr :: "nat \<Rightarrow> nat" where
  "swap_lr k = (if even k then k + 1 else k - 1)"

text \<open>
  A mask composed solely of mirrored left/right pairs: any choice among the front, back
  and side pair.
\<close>

definition mirrored_pairs_mask :: "bool \<Rightarrow> bool \<Rightarrow> bool \<Rightarrow> audio_channel_mask_t" where
  "mirrored_pairs_mask front back side =
     (if front then AUDIO_CHANNEL_OUT_FRONT_LEFT OR AUDIO_CHANNEL_OUT_FRONT_RIGHT else 0)
     OR (if back then AUDIO_CHANNEL_OUT_BACK_LEFT OR AUDIO_CHANNEL_OUT_BACK_RIGHT else 0)
     OR (if side then AUDIO_CHANNEL_OUT_SIDE_LEFT OR AUDIO_CHANNEL_OUT_SIDE_RIGHT else 0)"

text \<open>
  Half the sum of the even-indexed samples and half the sum of the odd-indexed samples of
  a frame of \<open>np\<close> left/right pairs; \<open>pair_layout s np\<close> says that the mixer mixes
  frames of \<open>np\<close> pairs that way.
\<close>

definition pairFrame :: "nat \<Rightarrow> store \<Rightarrow> addr \<Rightarrow> sample \<times> sample" where
  "pairFrame np h p =
     (1/2 * (\<Sum>j<np. h (p + 2 * j)), 1/2 * (\<Sum>j<np. h (p + 2 * j + 1)))"

definition pair_layout :: "ChannelMix \<Rightarrow> nat \<Rightarrow> bool" where
  "pair_layout s np =
     (mInputChannelCount s = 2 * np \<and> frameStride s = 2 * np \<and> frameReads s = 2 * np
      \<and> frameContribution s = pairFrame np)"

definition ramp_store :: store where
  "ramp_store a = (if a < 8 then real a / 10 else 0)"

definition ramp_store_swapped :: store where
  "ramp_store_swapped a = (if a < 8 then real (swap_lr a) / 10 else 0)"

text \<open>
  A mixer configured for stereo and then reconfigured with the single position
  \<^verbatim>\<open>AUDIO_CHANNEL_OUT_TOP_CENTER\<close>, which the switch does not classify.
\<close>

definition stale_mixer :: ChannelMix where
  "stale_mixer = snd (setInputChannelMask stereo_mixer AUDIO_CHANNEL_OUT_TOP_CENTER)"

definition unit_store :: store where
  "unit_store a = (if a < 2 then 1 else 0)"

section \<open>Facts about configuration\<close>

lemma setInputChannelMask_loop_step:
  "tmp \<noteq> 0 \<Longrightarrow> setInputChannelMask_loop s index tmp =
     setInputChannelMask_loop (setInputChannelMask_switch s index (tmp AND - tmp))
       (index + 1) (tmp XOR (tmp AND - tmp))"
  by (subst setInputChannelMask_loop.simps) (simp add: Let_def)

lemma setInputChannelMask_loop_zero:
  "setInputChannelMask_loop s index 0 = (s, index)"
  by (subst setInputChannelMask_loop.simps) simp

lemmas configure_eval =
  setInputChannelMask_def setInputChannelMask_loop_step setInputChannelMask_loop_zero
  setInputChannelMask_switch_def ChannelMix_default_def layout_defs channel_defs FCC_24_def

lemma switch_mask [simp]:
  "mInputChannelMask (setInputChannelMask_switch s index b) = mInputChannelMask s"
  by (simp add: setInputChannelMask_switch_def)

lemma switch_count [simp]:
  "mInputChannelCount (setInputChannelMask_switch s index b) = mInputChannelCount s"
  by (simp add: setInputChannelMask_switch_def)

lemma switch_length [simp]:
  "length (mMatrix (setInputChannelMask_switch s index b)) = length (mMatrix s)"
  by (simp add: setInputChannelMask_switch_def)

lemma loop_length:
  "length (mMatrix (fst (setInputChannelMask_loop s index tmp))) = length (mMatrix s)"
proof (induction s index tmp rule: setInputChannelMask_loop.induct)
  case (1 s index tmp)
  show ?case
  proof (cases "tmp = 0")
    case True
    then show ?thesis by (simp add: setInputChannelMask_loop_zero)
  next
    case False
    then show ?thesis
      using "1.IH" [OF False refl] by (simp add: setInputChannelMask_loop_step)
  qed
qed

lemma setInputChannelMask_mask:
  "fst (setInputChannelMask s m) \<Longrightarrow> mInputChannelMask (snd (setInputChannelMask s m)) = m"
  by (auto simp add: setInputChannelMask_def Let_def split: if_splits prod.splits)

lemma setInputChannelMask_fail:
  "\<not> fst (setInputChannelMask s m) \<Longrightarrow> snd (setInputChannelMask s m) = s"
  by (auto simp add: setInputChannelMask_def Let_def split: if_splits prod.splits)

lemma setInputChannelMask_length:
  "length (mMatrix (snd (setInputChannelMask s m))) = length (mMatrix s)"
  using loop_length [of s 0 m]
  by (auto simp add: setInputChannelMask_def Let_def split: if_splits prod.splits)

lemma position_mask_bits:
  "position_mask m = (\<forall>n. FCC_24 \<le> n \<longrightarrow> \<not> bit m n)"
proof -
  have "(push_bit FCC_24 1 - 1 :: 32 word) = mask FCC_24"
    by (simp add: mask_eq_exp_minus_1 push_bit_eq_mult)
  then have "position_mask m = (m AND NOT (mask FCC_24) = 0)"
    by (simp add: position_mask_def)
  also have "\<dots> = (\<forall>n<32. bit m n \<longrightarrow> \<not> FCC_24 \<le> n)"
    by (auto simp add: bit_eq_iff bit_and_iff bit_not_iff bit_mask_iff not_less)
  also have "\<dots> = (\<forall>n. FCC_24 \<le> n \<longrightarrow> \<not> bit m n)"
    using bit_imp_le_length [of m] by auto
  finally show ?thesis .
qed

lemma reachable_position_mask:
  "reachable s \<Longrightarrow> position_mask (mInputChannelMask s)"
proof (induction rule: reachable.induct)
  case (reachable_default rows)
  then show ?case
    by (simp add: ChannelMix_default_def position_mask_def AUDIO_CHANNEL_NONE_def)
next
  case (reachable_set s m)
  then show ?case
    by (auto simp add: setInputChannelMask_def position_mask_def Let_def split: prod.splits)
qed

lemma reachable_length:
  "reachable s \<Longrightarrow> length (mMatrix s) = FCC_24"
  by (induction rule: reachable.induct)
     (simp_all add: ChannelMix_default_def setInputChannelMask_length)

lemma stereo_mixer_eval:
  "stereo_mixer =
     \<lparr>mMatrix = (replicate 24 (0, 0))[0 := (1/2, 0), 1 := (0, 1/2)],
      mInputChannelMask = 3, mLastValidChannelIndexPlusOne = 2, mInputChannelCount = 2\<rparr>"
  by (simp add: stereo_mixer_def configure_eval)

lemma reachable_stereo_mixer: "reachable stereo_mixer"
  unfolding stereo_mixer_def
  by (rule reachable_set, rule reachable_default) (simp add: FCC_24_def)

lemma reachable_configured:
  assumes "reachable s" and "mInputChannelMask s \<noteq> AUDIO_CHANNEL_NONE"
  shows "\<exists>s0 s' index. length (mMatrix s0) = FCC_24
           \<and> setInputChannelMask_loop s0 0 (mInputChannelMask s) = (s', index)
           \<and> s = s'\<lparr>mInputChannelMask := mInputChannelMask s, mInputChannelCount := index\<rparr>"
  using assms
proof (induction rule: reachable.induct)
  case (reachable_default rows)
  then show ?case by (simp add: ChannelMix_default_def)
next
  case (reachable_set s m)
  show ?case
  proof (cases "mInputChannelMask s \<noteq> m \<and> position_mask m")
    case True
    obtain s' index where l: "setInputChannelMask_loop s 0 m = (s', index)"
      by (cases "setInputChannelMask_loop s 0 m")
    have r: "snd (setInputChannelMask s m)
               = s'\<lparr>mInputChannelMask := m, mInputChannelCount := index\<rparr>"
      using True l by (simp add: setInputChannelMask_def position_mask_def)
    have "length (mMatrix s) = FCC_24"
      using reachable_set.hyps by (rule reachable_length)
    then show ?thesis
      using l r by auto
  next
    case False
    then have "snd (setInputChannelMask s m) = s"
      by (auto simp add: setInputChannelMask_def position_mask_def)
    then show ?thesis
      using reachable_set.IH reachable_set.prems by simp
  qed
qed

lemma loop_result_frame:
  "matrixFrame (s'\<lparr>mInputChannelMask := m, mInputChannelCount := index\<rparr>) h p
     = matrixFrame s' h p"
  by (simp add: matrixFrame_def)

text \<open>
  Array bounds. The loop writes row \<open>index\<close> for \<open>index\<close> from 0 up to one below the
  value it returns, and \<^verbatim>\<open>matrixProcess\<close> reads the rows below
  \<^verbatim>\<open>mLastValidChannelIndexPlusOne\<close>. For a mask inside the 24 position slots the
  returned index is at most \<^verbatim>\<open>FCC_24\<close>, so no write leaves \<^verbatim>\<open>mMatrix\<close>, and
  in every state a mixer can be in both counters are at most \<^verbatim>\<open>FCC_24\<close>, so no
  read does.
\<close>

lemma clear_lowest_bit_bits:
  fixes tmp :: "32 word"
  assumes low: "\<forall>j<index. \<not> bit tmp j"
  shows "(\<forall>j<index + 1. \<not> bit (tmp XOR (tmp AND - tmp)) j)
       \<and> (\<forall>j. bit (tmp XOR (tmp AND - tmp)) j \<longrightarrow> bit tmp j)"
proof -
  have b: "bit (tmp XOR (tmp AND - tmp)) j = (bit tmp j \<and> \<not> bit (- tmp) j)" for j
    by (auto simp add: bit_xor_iff bit_and_iff)
  have "bit (- tmp) index = bit tmp index"
    using low by (rule neg_bit_above_zero_bits)
  then have "\<not> bit (tmp XOR (tmp AND - tmp)) index"
    by (simp add: b)
  moreover have "\<not> bit (tmp XOR (tmp AND - tmp)) j" if "j < index" for j
    using low that by (simp add: b)
  ultimately show ?thesis
    by (auto simp add: b less_Suc_eq)
qed

lemma switch_last:
  "mLastValidChannelIndexPlusOne (setInputChannelMask_switch s index b)
     = mLastValidChannelIndexPlusOne s
   \<or> mLastValidChannelIndexPlusOne (setInputChannelMask_switch s index b) = index + 1"
  by (simp add: setInputChannelMask_switch_def)

lemma loop_bounds:
  assumes "\<forall>j<index. \<not> bit tmp j" and "position_mask tmp" and "index \<le> FCC_24"
    and "mLastValidChannelIndexPlusOne s \<le> FCC_24"
  shows "snd (setInputChannelMask_loop s index tmp) \<le> FCC_24
       \<and> mLastValidChannelIndexPlusOne (fst (setInputChannelMask_loop s index tmp)) \<le> FCC_24"
  using assms
proof (induction s index tmp rule: setInputChannelMask_loop.induct)
  case (1 s index tmp)
  show ?case
  proof (cases "tmp = 0")
    case True
    then show ?thesis using "1.prems" by (simp add: setInputChannelMask_loop_zero)
  next
    case False
    let ?t = "tmp XOR (tmp AND - tmp)"
    obtain j where j: "bit tmp j" using False by (auto simp add: bit_eq_iff)
    have "index \<le> j" using "1.prems"(1) j by (meson not_le)
    moreover have "j < FCC_24"
      using "1.prems"(2) j by (auto simp add: position_mask_bits not_le [symmetric])
    ultimately have i: "index + 1 \<le> FCC_24" by simp
    have c: "(\<forall>j<index + 1. \<not> bit ?t j) \<and> (\<forall>j. bit ?t j \<longrightarrow> bit tmp j)"
      using "1.prems"(1) by (rule clear_lowest_bit_bits)
    have p: "position_mask ?t"
      using "1.prems"(2) c by (simp add: position_mask_bits) blast
    have l: "mLastValidChannelIndexPlusOne
               (setInputChannelMask_switch s index (tmp AND - tmp)) \<le> FCC_24"
      using switch_last [of s index "tmp AND - tmp"] "1.prems"(4) i by auto
    show ?thesis
      using "1.IH" [OF False refl _ p i l] c
      by (simp add: setInputChannelMask_loop_step [OF False])
  qed
qed

lemma reachable_bounds:
  "reachable s \<Longrightarrow>
     mLastValidChannelIndexPlusOne s \<le> FCC_24 \<and> mInputChannelCount s \<le> FCC_24"
proof (induction rule: reachable.induct)
  case (reachable_default rows)
  then show ?case by (simp add: ChannelMix_default_def)
next
  case (reachable_set s m)
  show ?case
  proof (cases "mInputChannelMask s \<noteq> m \<and> position_mask m")
    case True
    obtain s' index where l: "setInputChannelMask_loop s 0 m = (s', index)"
      by (cases "setInputChannelMask_loop s 0 m")
    have "snd (setInputChannelMask_loop s 0 m) \<le> FCC_24
       \<and> mLastValidChannelIndexPlusOne (fst (setInputChannelMask_loop s 0 m)) \<le> FCC_24"
      using True reachable_set.IH by (intro loop_bounds) simp_all
    then show ?thesis
      using True l by (simp add: setInputChannelMask_def position_mask_def)
  next
    case False
    then have "snd (setInputChannelMask s m) = s"
      by (auto simp add: setInputChannelMask_def position_mask_def)
    then show ?thesis using reachable_set.IH by simp
  qed
qed

section \<open>Facts about mixing\<close>

lemma specificProcess_ok:
  "c = 4 \<or> c = 6 \<or> c = 8 \<Longrightarrow> fst (specificProcess c acc h src dst n)"
  by (induction n arbitrary: h src dst)
     (auto simp add: specificFrame_def Let_def split: option.splits if_splits)

lemma processSwitch_result:
  "fst (processSwitch s acc h src dst n) = (mInputChannelMask s \<noteq> AUDIO_CHANNEL_NONE)"
  by (simp add: processSwitch_def matrixProcess_def specificProcess_ok
      layout_defs channel_defs)

lemma processSwitch_unconfigured:
  "mInputChannelMask s = AUDIO_CHANNEL_NONE \<Longrightarrow> processSwitch s acc h src dst n = (False, h)"
  by (simp add: processSwitch_def matrixProcess_def layout_defs channel_defs)

lemma matrixProcess_loop_frameLoop:
  "matrixProcess_loop s acc h src dst n
     = frameLoop (matrixFrame s) (mInputChannelCount s) acc h src dst n"
  by (induction n arbitrary: h src dst)
     (simp_all add: Let_def mOutputChannelCount_def FCC_2_def add.commute)

lemma specificProcess_frameLoop:
  "c = 4 \<or> c = 6 \<or> c = 8 \<Longrightarrow>
   specificProcess c acc h src dst n = (True, frameLoop (specificHalf c) c acc h src dst n)"
  by (induction n arbitrary: h src dst)
     (auto simp add: Let_def mOutputChannelCount_def FCC_2_def specificHalf_def
        specificFrame_def add.commute)

lemma frameLoop_outside:
  "a \<notin> {dst ..< dst + 2 * n} \<Longrightarrow> frameLoop F c acc h src dst n a = h a"
  by (induction n arbitrary: h src dst) auto

lemma clamp_bounds: "- 1 \<le> clamp v \<and> clamp v \<le> 1"
  by (simp add: clamp_def LIMIT_AMPLITUDE_def)

lemma frameLoop_bounded:
  "a \<in> {dst ..< dst + 2 * n} \<Longrightarrow>
     - 1 \<le> frameLoop F c acc h src dst n a \<and> frameLoop F c acc h src dst n a \<le> 1"
proof (induction n arbitrary: h src dst)
  case 0
  then show ?case by simp
next
  case (Suc n)
  show ?case
  proof (cases "a \<in> {dst + 2 ..< dst + 2 + 2 * n}")
    case True
    then show ?thesis using Suc.IH by simp
  next
    case False
    then have "a = dst \<or> a = dst + 1" using Suc.prems by auto
    then show ?thesis using False
      by (auto simp add: frameLoop_outside clamp_bounds)
  qed
qed

lemma frameLoop_frame:
  assumes "reads_only F w"
    and "\<forall>f<n. \<forall>i<w. src + f * c + i \<notin> {dst ..< dst + 2 * f}"
    and "f < n"
  shows "frameLoop F c acc h src dst n (dst + 2 * f)
           = clamp ((if acc then h (dst + 2 * f) else 0) + fst (F h (src + f * c)))
       \<and> frameLoop F c acc h src dst n (dst + 2 * f + 1)
           = clamp ((if acc then h (dst + 2 * f + 1) else 0) + snd (F h (src + f * c)))"
  using assms(2,3)
proof (induction n arbitrary: h src dst f)
  case 0
  then show ?case by simp
next
  case (Suc n)
  define h1 where "h1 = h(dst := clamp ((if acc then h dst else 0) + fst (F h src)),
          dst + 1 := clamp ((if acc then h (dst + 1) else 0) + snd (F h src)))"
  have step: "frameLoop F c acc h src dst (Suc n) = frameLoop F c acc h1 (src + c) (dst + 2) n"
    by (simp add: h1_def)
  show ?case
  proof (cases f)
    case 0
    have "frameLoop F c acc h1 (src + c) (dst + 2) n dst = h1 dst"
      "frameLoop F c acc h1 (src + c) (dst + 2) n (dst + 1) = h1 (dst + 1)"
      by (simp_all add: frameLoop_outside)
    then show ?thesis
      unfolding step using 0 by (simp add: h1_def)
  next
    case (Suc g)
    have sep: "\<forall>f<n. \<forall>i<w. (src + c) + f * c + i \<notin> {dst + 2 ..< dst + 2 + 2 * f}"
    proof (intro allI impI)
      fix f' i assume "f' < n" "i < w"
      then have "src + Suc f' * c + i \<notin> {dst ..< dst + 2 * Suc f'}"
        using Suc.prems(1) by (metis Suc_less_eq)
      then show "(src + c) + f' * c + i \<notin> {dst + 2 ..< dst + 2 + 2 * f'}"
        by (auto simp add: algebra_simps)
    qed
    have g: "g < n" using Suc.prems(2) Suc by simp
    have agree: "h1 (src + c + g * c + i) = h (src + c + g * c + i)" if "i < w" for i
    proof -
      have "src + Suc g * c + i \<notin> {dst ..< dst + 2 * Suc g}"
        using Suc.prems(1) Suc.prems(2) Suc that by blast
      then show ?thesis
        by (auto simp add: h1_def algebra_simps)
    qed
    have same: "F h1 (src + c + g * c) = F h (src + c + g * c)"
      using assms(1) agree unfolding reads_only_def by blast
    have old: "h1 (dst + 2 + 2 * g) = h (dst + 2 + 2 * g)"
      "h1 (dst + 2 + 2 * g + 1) = h (dst + 2 + 2 * g + 1)"
      by (simp_all add: h1_def)
    have eq: "src + f * c = src + c + g * c" "dst + 2 * f = dst + 2 + 2 * g"
      using Suc by simp_all
    show ?thesis
      unfolding step eq using Suc.IH [OF sep g, of h1] by (simp only: same old)
  qed
qed

lemma fold_pair_sum:
  "fold (\<lambda>i ch. (fst ch + a i, snd ch + b i)) [0 ..< n] (x, y)
     = (x + (\<Sum>i<n. a i), y + (\<Sum>i<n. b i))"
  by (induction n) (simp_all add: add.assoc)

lemma matrixFrame_sum:
  "matrixFrame s h p =
     (\<Sum>i<mLastValidChannelIndexPlusOne s. fst (mMatrix s ! i) * h (p + i),
      \<Sum>i<mLastValidChannelIndexPlusOne s. snd (mMatrix s ! i) * h (p + i))"
  unfolding matrixFrame_def by (simp add: fold_pair_sum)

lemma matrixFrame_reads:
  "reads_only (matrixFrame s) (mLastValidChannelIndexPlusOne s)"
  unfolding reads_only_def by (simp add: matrixFrame_sum)

lemma specificHalf_reads:
  assumes c: "c = 4 \<or> c = 6 \<or> c = 8"
  shows "reads_only (specificHalf c) c"
  unfolding reads_only_def
proof (intro allI impI)
  fix h h' :: store and p
  assume a: "\<forall>i<c. h' (p + i) = h (p + i)"
  have r: "h' (p + i) = h (p + i)" if "i < 4" for i
    using a c that by auto
  have low: "h' p = h p" "h' (p + 1) = h (p + 1)" "h' (p + 2) = h (p + 2)"
    "h' (p + 3) = h (p + 3)"
    using r [of 0] r [of 1] r [of 2] r [of 3] by simp_all
  have mid: "h' (p + 4) = h (p + 4)" "h' (p + 5) = h (p + 5)" if "c \<noteq> 4"
    using a c that by auto
  have high: "h' (p + 6) = h (p + 6)" "h' (p + 7) = h (p + 7)" if "c = 8"
    using a that by auto
  consider "c = 4" | "c = 6" | "c = 8" using c by blast
  then show "specificHalf c h' p = specificHalf c h p"
  proof cases
    case 1
    then show ?thesis
      using low by (simp add: specificHalf_def specificFrame_def)
  next
    case 2
    then show ?thesis
      using low mid by (simp add: specificHalf_def specificFrame_def)
  next
    case 3
    then show ?thesis
      using low mid high by (simp add: specificHalf_def specificFrame_def)
  qed
qed

lemma quad_back_loop:
  "length (mMatrix s0) = 24 \<Longrightarrow>
   setInputChannelMask_loop s0 0 AUDIO_CHANNEL_OUT_QUAD_BACK = (s', index) \<Longrightarrow>
   index = 4 \<and> matrixFrame s' h p = specificHalf 4 h p"
  apply (clarsimp simp add: configure_eval)
  apply (simp add: matrixFrame_sum specificHalf_def specificFrame_def eval_nat_numeral
      algebra_simps)
  done

lemma quad_side_loop:
  "length (mMatrix s0) = 24 \<Longrightarrow>
   setInputChannelMask_loop s0 0 AUDIO_CHANNEL_OUT_QUAD_SIDE = (s', index) \<Longrightarrow>
   index = 4 \<and> matrixFrame s' h p = specificHalf 4 h p"
  apply (clarsimp simp add: configure_eval)
  apply (simp add: matrixFrame_sum specificHalf_def specificFrame_def eval_nat_numeral
      algebra_simps)
  done

lemma five_back_loop:
  "length (mMatrix s0) = 24 \<Longrightarrow>
   setInputChannelMask_loop s0 0 AUDIO_CHANNEL_OUT_5POINT1_BACK = (s', index) \<Longrightarrow>
   index = 6 \<and> matrixFrame s' h p = specificHalf 6 h p"
  apply (clarsimp simp add: configure_eval)
  apply (simp add: matrixFrame_sum specificHalf_def specificFrame_def eval_nat_numeral
      algebra_simps)
  done

lemma five_side_loop:
  "length (mMatrix s0) = 24 \<Longrightarrow>
   setInputChannelMask_loop s0 0 AUDIO_CHANNEL_OUT_5POINT1_SIDE = (s', index) \<Longrightarrow>
   index = 6 \<and> matrixFrame s' h p = specificHalf 6 h p"
  apply (clarsimp simp add: configure_eval)
  apply (simp add: matrixFrame_sum specificHalf_def specificFrame_def eval_nat_numeral
      algebra_simps)
  done

lemma seven_loop:
  "length (mMatrix s0) = 24 \<Longrightarrow>
   setInputChannelMask_loop s0 0 AUDIO_CHANNEL_OUT_7POINT1 = (s', index) \<Longrightarrow>
   index = 8 \<and> matrixFrame s' h p = specificHalf 8 h p"
  apply (clarsimp simp add: configure_eval)
  apply (simp add: matrixFrame_sum specificHalf_def specificFrame_def eval_nat_numeral
      algebra_simps)
  done

lemma fast_mask_state:
  assumes r: "reachable s"
    and l: "\<And>s0 s' index. length (mMatrix s0) = 24 \<Longrightarrow>
              setInputChannelMask_loop s0 0 (mInputChannelMask s) = (s', index) \<Longrightarrow>
              index = c \<and> matrixFrame s' = specificHalf c"
    and n: "mInputChannelMask s \<noteq> AUDIO_CHANNEL_NONE"
  shows "mInputChannelCount s = c \<and> matrixFrame s = specificHalf c"
proof -
  obtain s0 s' index where a: "length (mMatrix s0) = FCC_24"
    "setInputChannelMask_loop s0 0 (mInputChannelMask s) = (s', index)"
    "s = s'\<lparr>mInputChannelMask := mInputChannelMask s, mInputChannelCount := index\<rparr>"
    using reachable_configured [OF r n] by blast
  have b: "index = c \<and> matrixFrame s' = specificHalf c"
    using l [of s0 s' index] a(1,2) by (simp add: FCC_24_def)
  have "matrixFrame s = matrixFrame s'"
    by (subst a(3)) (simp add: loop_result_frame fun_eq_iff)
  moreover have "mInputChannelCount s = index"
    by (subst a(3)) simp
  ultimately show ?thesis using b by simp
qed

lemma quad_state:
  assumes "reachable s"
    and "mInputChannelMask s = AUDIO_CHANNEL_OUT_QUAD_BACK
         \<or> mInputChannelMask s = AUDIO_CHANNEL_OUT_QUAD_SIDE"
  shows "mInputChannelCount s = 4 \<and> matrixFrame s = specificHalf 4"
proof (rule fast_mask_state [OF assms(1)])
  show "mInputChannelMask s \<noteq> AUDIO_CHANNEL_NONE"
    using assms(2) by (auto simp add: layout_defs channel_defs)
next
  fix s0 s' index
  assume "length (mMatrix s0) = 24"
    "setInputChannelMask_loop s0 0 (mInputChannelMask s) = (s', index)"
  then show "index = 4 \<and> matrixFrame s' = specificHalf 4"
    using assms(2) quad_back_loop [of s0 s' index] quad_side_loop [of s0 s' index]
    by (auto simp add: fun_eq_iff)
qed

lemma five_one_state:
  assumes "reachable s"
    and "mInputChannelMask s = AUDIO_CHANNEL_OUT_5POINT1_BACK
         \<or> mInputChannelMask s = AUDIO_CHANNEL_OUT_5POINT1_SIDE"
  shows "mInputChannelCount s = 6 \<and> matrixFrame s = specificHalf 6"
proof (rule fast_mask_state [OF assms(1)])
  show "mInputChannelMask s \<noteq> AUDIO_CHANNEL_NONE"
    using assms(2) by (auto simp add: layout_defs channel_defs)
next
  fix s0 s' index
  assume "length (mMatrix s0) = 24"
    "setInputChannelMask_loop s0 0 (mInputChannelMask s) = (s', index)"
  then show "index = 6 \<and> matrixFrame s' = specificHalf 6"
    using assms(2) five_back_loop [of s0 s' index] five_side_loop [of s0 s' index]
    by (auto simp add: fun_eq_iff)
qed

lemma seven_one_state:
  assumes "reachable s"
    and "mInputChannelMask s = AUDIO_CHANNEL_OUT_7POINT1"
  shows "mInputChannelCount s = 8 \<and> matrixFrame s = specificHalf 8"
proof (rule fast_mask_state [OF assms(1)])
  show "mInputChannelMask s \<noteq> AUDIO_CHANNEL_NONE"
    using assms(2) by (auto simp add: layout_defs channel_defs)
next
  fix s0 s' index
  assume "length (mMatrix s0) = 24"
    "setInputChannelMask_loop s0 0 (mInputChannelMask s) = (s', index)"
  then show "index = 8 \<and> matrixFrame s' = specificHalf 8"
    using assms(2) seven_loop [of s0 s' index]
    by (auto simp add: fun_eq_iff)
qed

lemma matrixProcess_fast:
  assumes "mInputChannelCount s = c" and "matrixFrame s = specificHalf c"
    and "c = 4 \<or> c = 6 \<or> c = 8" and "mInputChannelMask s \<noteq> AUDIO_CHANNEL_NONE"
  shows "specificProcess c acc h src dst n = matrixProcess s h src dst n acc"
  using assms
  by (simp add: matrixProcess_def matrixProcess_loop_frameLoop specificProcess_frameLoop)

lemma reachable_five_one_mixer: "reachable five_one_mixer"
  unfolding five_one_mixer_def
  by (rule reachable_set, rule reachable_default) (simp add: FCC_24_def)

lemma five_one_mixer_mask:
  "mInputChannelMask five_one_mixer = AUDIO_CHANNEL_OUT_5POINT1_BACK"
  unfolding five_one_mixer_def
  by (rule setInputChannelMask_mask) (simp add: configure_eval)

lemma fast_path_channels_cases:
  "fast_path_channels s = Some c \<Longrightarrow> c = 4 \<or> c = 6 \<or> c = 8"
  by (auto simp add: fast_path_channels_def split: if_splits)

lemma processSwitch_fast:
  "fast_path_channels s = Some c \<Longrightarrow>
     processSwitch s acc h src dst n = specificProcess c acc h src dst n"
  by (auto simp add: fast_path_channels_def processSwitch_def split: if_splits)

lemma processSwitch_generic:
  "fast_path_channels s = None \<Longrightarrow>
     processSwitch s acc h src dst n = matrixProcess s h src dst n acc"
  by (auto simp add: fast_path_channels_def processSwitch_def split: if_splits)

lemma process_processSwitch:
  "process s h src dst n acc = processSwitch s acc h src dst n"
  by (simp add: process_def)

lemma process_frameLoop:
  assumes "mInputChannelMask s \<noteq> AUDIO_CHANNEL_NONE"
  shows "process s h src dst n acc
           = (True, frameLoop (frameContribution s) (frameStride s) acc h src dst n)"
proof (cases "fast_path_channels s")
  case None
  have "frameContribution s = matrixFrame s"
    using None by (simp add: frameContribution_def fun_eq_iff)
  then show ?thesis
    using None assms
    by (simp add: process_processSwitch processSwitch_generic matrixProcess_def
        matrixProcess_loop_frameLoop frameStride_def)
next
  case (Some c)
  have "frameContribution s = specificHalf c"
    using Some by (simp add: frameContribution_def fun_eq_iff)
  then show ?thesis
    using Some fast_path_channels_cases [OF Some]
    by (simp add: process_processSwitch processSwitch_fast specificProcess_frameLoop
        frameStride_def)
qed

lemma frameContribution_reads:
  "reads_only (frameContribution s) (frameReads s)"
proof (cases "fast_path_channels s")
  case None
  have "frameContribution s = matrixFrame s"
    using None by (simp add: frameContribution_def fun_eq_iff)
  then show ?thesis using None by (simp add: frameReads_def matrixFrame_reads)
next
  case (Some c)
  have "frameContribution s = specificHalf c"
    using Some by (simp add: frameContribution_def fun_eq_iff)
  then show ?thesis
    using Some specificHalf_reads [OF fast_path_channels_cases [OF Some]]
    by (simp add: frameReads_def)
qed

lemma frameLoop_first:
  "0 < n \<Longrightarrow>
     frameLoop F c acc h src dst n dst = clamp ((if acc then h dst else 0) + fst (F h src))
   \<and> frameLoop F c acc h src dst n (dst + 1)
        = clamp ((if acc then h (dst + 1) else 0) + snd (F h src))"
  by (cases n) (simp_all add: frameLoop_outside)

lemma clamp_ge_one: "1 \<le> v \<Longrightarrow> clamp v = 1"
  by (simp add: clamp_def LIMIT_AMPLITUDE_def)

lemma clamp_id: "\<bar>v\<bar> \<le> 1 \<Longrightarrow> clamp v = v"
  by (simp add: clamp_def LIMIT_AMPLITUDE_def)

lemma stereo_mixer_fields:
  "mInputChannelMask stereo_mixer \<noteq> AUDIO_CHANNEL_NONE"
  "fast_path_channels stereo_mixer = None"
  "mLastValidChannelIndexPlusOne stereo_mixer = 2"
  "mInputChannelCount stereo_mixer = 2"
  "mMatrix stereo_mixer ! 0 = (1/2, 0)"
  "mMatrix stereo_mixer ! 1 = (0, 1/2)"
  "mMatrix stereo_mixer ! Suc 0 = (0, 1/2)"
  by (simp_all add: fast_path_channels_def stereo_mixer_eval layout_defs channel_defs)

lemma sum_two: "(\<Sum>i<2. g i) = g 0 + g 1" for g :: "nat \<Rightarrow> real"
  by (simp add: numeral_2_eq_2)

lemma stereo_mixer_contribution:
  "frameContribution stereo_mixer h p = (1/2 * h p, 1/2 * h (p + 1))"
  by (simp add: frameContribution_def matrixFrame_sum stereo_mixer_fields sum_two)

lemma dst_range_cases:
  fixes a dst n :: nat
  assumes "a \<in> {dst ..< dst + 2 * n}"
  obtains f where "f < n" "a = dst + 2 * f" | f where "f < n" "a = dst + 2 * f + 1"
proof -
  define k where "k = a - dst"
  have k: "a = dst + k" "k < 2 * n" using assms by (auto simp add: k_def)
  show ?thesis
  proof (cases "even k")
    case True
    then obtain f where "k = 2 * f" by (auto elim: evenE)
    then show ?thesis using k that(1) [of f] by simp
  next
    case False
    then obtain f where "k = 2 * f + 1" by (auto elim: oddE)
    then show ?thesis using k that(2) [of f] by simp
  qed
qed

lemma stereo_mixer_dispatch:
  "frameReads stereo_mixer = 2" "frameStride stereo_mixer = 2"
  by (simp_all add: frameReads_def frameStride_def stereo_mixer_fields)

lemma configured_state:
  assumes r: "reachable s"
    and n: "mInputChannelMask s \<noteq> AUDIO_CHANNEL_NONE"
    and l: "\<And>s0 s' index. length (mMatrix s0) = 24 \<Longrightarrow>
              setInputChannelMask_loop s0 0 (mInputChannelMask s) = (s', index) \<Longrightarrow>
              index = c \<and> mLastValidChannelIndexPlusOne s' = w \<and> matrixFrame s' = G"
  shows "mInputChannelCount s = c \<and> mLastValidChannelIndexPlusOne s = w
         \<and> matrixFrame s = G"
proof -
  obtain s0 s' index where a: "length (mMatrix s0) = FCC_24"
    "setInputChannelMask_loop s0 0 (mInputChannelMask s) = (s', index)"
    "s = s'\<lparr>mInputChannelMask := mInputChannelMask s, mInputChannelCount := index\<rparr>"
    using reachable_configured [OF r n] by blast
  have b: "index = c \<and> mLastValidChannelIndexPlusOne s' = w \<and> matrixFrame s' = G"
    using l [of s0 s' index] a(1,2) by (simp add: FCC_24_def)
  have "matrixFrame s = matrixFrame s'"
    by (subst a(3)) (simp add: loop_result_frame fun_eq_iff)
  moreover have "mInputChannelCount s = index"
    by (subst a(3)) simp
  moreover have "mLastValidChannelIndexPlusOne s = mLastValidChannelIndexPlusOne s'"
    by (subst a(3)) simp
  ultimately show ?thesis using b by simp
qed

lemma pairFrame_unfold:
  "pairFrame 1 h p = (1/2 * h p, 1/2 * h (p + 1))"
  "pairFrame 2 h p = (1/2 * (h p + h (p + 2)), 1/2 * (h (p + 1) + h (p + 3)))"
  "pairFrame 3 h p = (1/2 * (h p + h (p + 2) + h (p + 4)),
                      1/2 * (h (p + 1) + h (p + 3) + h (p + 5)))"
  by (simp_all add: pairFrame_def eval_nat_numeral)

lemma pair_loop_front:
  "length (mMatrix s0) = 24 \<Longrightarrow> setInputChannelMask_loop s0 0 0x3 = (s', index) \<Longrightarrow>
     index = 2 \<and> mLastValidChannelIndexPlusOne s' = 2 \<and> matrixFrame s' h p = pairFrame 1 h p"
  apply (clarsimp simp add: configure_eval)
  apply (simp add: matrixFrame_sum pairFrame_def eval_nat_numeral algebra_simps)
  done

lemma pair_loop_back:
  "length (mMatrix s0) = 24 \<Longrightarrow> setInputChannelMask_loop s0 0 0x30 = (s', index) \<Longrightarrow>
     index = 2 \<and> mLastValidChannelIndexPlusOne s' = 2 \<and> matrixFrame s' h p = pairFrame 1 h p"
  apply (clarsimp simp add: configure_eval)
  apply (simp add: matrixFrame_sum pairFrame_def eval_nat_numeral algebra_simps)
  done

lemma pair_loop_side:
  "length (mMatrix s0) = 24 \<Longrightarrow> setInputChannelMask_loop s0 0 0x600 = (s', index) \<Longrightarrow>
     index = 2 \<and> mLastValidChannelIndexPlusOne s' = 2 \<and> matrixFrame s' h p = pairFrame 1 h p"
  apply (clarsimp simp add: configure_eval)
  apply (simp add: matrixFrame_sum pairFrame_def eval_nat_numeral algebra_simps)
  done

lemma pair_loop_back_side:
  "length (mMatrix s0) = 24 \<Longrightarrow> setInputChannelMask_loop s0 0 0x630 = (s', index) \<Longrightarrow>
     index = 4 \<and> mLastValidChannelIndexPlusOne s' = 4 \<and> matrixFrame s' h p = pairFrame 2 h p"
  apply (clarsimp simp add: configure_eval)
  apply (simp add: matrixFrame_sum pairFrame_def eval_nat_numeral algebra_simps)
  done

lemma pair_loop_all:
  "length (mMatrix s0) = 24 \<Longrightarrow> setInputChannelMask_loop s0 0 0x633 = (s', index) \<Longrightarrow>
     index = 6 \<and> mLastValidChannelIndexPlusOne s' = 6 \<and> matrixFrame s' h p = pairFrame 3 h p"
  apply (clarsimp simp add: configure_eval)
  apply (simp add: matrixFrame_sum pairFrame_def eval_nat_numeral algebra_simps)
  done

lemma specificHalf_quad: "specificHalf 4 h p = pairFrame 2 h p"
  by (simp add: specificHalf_def specificFrame_def pairFrame_def eval_nat_numeral algebra_simps)

lemma mirrored_pairs_mask_values:
  "mirrored_pairs_mask False False False = 0"
  "mirrored_pairs_mask True False False = 0x3"
  "mirrored_pairs_mask False True False = 0x30"
  "mirrored_pairs_mask True True False = 0x33"
  "mirrored_pairs_mask False False True = 0x600"
  "mirrored_pairs_mask True False True = 0x603"
  "mirrored_pairs_mask False True True = 0x630"
  "mirrored_pairs_mask True True True = 0x633"
  by (simp_all add: mirrored_pairs_mask_def channel_defs)

lemma generic_pair_state:
  assumes r: "reachable s"
    and n: "mInputChannelMask s \<noteq> AUDIO_CHANNEL_NONE"
    and g: "fast_path_channels s = None"
    and l: "\<And>s0 s' index h p. length (mMatrix s0) = 24 \<Longrightarrow>
              setInputChannelMask_loop s0 0 (mInputChannelMask s) = (s', index) \<Longrightarrow>
              index = 2 * np \<and> mLastValidChannelIndexPlusOne s' = 2 * np
              \<and> matrixFrame s' h p = pairFrame np h p"
  shows "pair_layout s np"
proof -
  have "mInputChannelCount s = 2 * np \<and> mLastValidChannelIndexPlusOne s = 2 * np
         \<and> matrixFrame s = pairFrame np"
    using r n
  proof (rule configured_state)
    fix s0 s' index
    assume "length (mMatrix s0) = 24"
      "setInputChannelMask_loop s0 0 (mInputChannelMask s) = (s', index)"
    then show "index = 2 * np \<and> mLastValidChannelIndexPlusOne s' = 2 * np
         \<and> matrixFrame s' = pairFrame np"
      using l [of s0 s' index] by (simp add: fun_eq_iff)
  qed
  then show ?thesis
    using g by (simp add: pair_layout_def frameStride_def frameReads_def
        frameContribution_def fun_eq_iff)
qed

lemma quad_pair_state:
  assumes r: "reachable s"
    and m: "mInputChannelMask s = AUDIO_CHANNEL_OUT_QUAD_BACK
          \<or> mInputChannelMask s = AUDIO_CHANNEL_OUT_QUAD_SIDE"
  shows "pair_layout s 2"
proof -
  have f: "fast_path_channels s = Some 4"
    using m by (auto simp add: fast_path_channels_def)
  show ?thesis
    using quad_state [OF r m] f
    by (simp add: pair_layout_def frameStride_def frameReads_def
        frameContribution_def fun_eq_iff specificHalf_quad)
qed

lemma generic_pair_state_at:
  assumes r: "reachable s"
    and v: "mInputChannelMask s = v"
    and n: "v \<noteq> AUDIO_CHANNEL_NONE"
    and g: "fast_path_channels s = None"
    and l: "\<And>s0 s' index h p. length (mMatrix s0) = 24 \<Longrightarrow>
              setInputChannelMask_loop s0 0 v = (s', index) \<Longrightarrow>
              index = c \<and> mLastValidChannelIndexPlusOne s' = c
              \<and> matrixFrame s' h p = pairFrame np h p"
    and c: "c = 2 * np"
  shows "pair_layout s np"
  using r
proof (rule generic_pair_state)
  show "mInputChannelMask s \<noteq> AUDIO_CHANNEL_NONE" using v n by simp
  show "fast_path_channels s = None" by (rule g)
next
  fix s0 s' index h p
  assume "length (mMatrix s0) = 24"
    "setInputChannelMask_loop s0 0 (mInputChannelMask s) = (s', index)"
  then show "index = 2 * np \<and> mLastValidChannelIndexPlusOne s' = 2 * np
              \<and> matrixFrame s' h p = pairFrame np h p"
    using l [of s0 s' index h p] v c by simp
qed

lemma mirrored_state:
  assumes r: "reachable s"
    and m: "mInputChannelMask s = mirrored_pairs_mask front back side"
    and n: "mInputChannelMask s \<noteq> AUDIO_CHANNEL_NONE"
  shows "\<exists>np. pair_layout s np"
proof -
  have g: "fast_path_channels s = None"
    if "mInputChannelMask s = 0x3 \<or> mInputChannelMask s = 0x30 \<or> mInputChannelMask s = 0x600
        \<or> mInputChannelMask s = 0x630 \<or> mInputChannelMask s = 0x633"
    using that by (auto simp add: fast_path_channels_def layout_defs channel_defs)
  consider "mInputChannelMask s = 0x3" | "mInputChannelMask s = 0x30"
    | "mInputChannelMask s = 0x33" | "mInputChannelMask s = 0x600"
    | "mInputChannelMask s = 0x603" | "mInputChannelMask s = 0x630"
    | "mInputChannelMask s = 0x633"
    using m n by (cases "front"; cases "back"; cases "side")
      (simp_all add: mirrored_pairs_mask_values AUDIO_CHANNEL_NONE_def)
  then show ?thesis
  proof cases
    case 1
    have "pair_layout s 1"
      using r 1 by (rule generic_pair_state_at [where c = 2])
        (simp_all add: g 1 pair_loop_front AUDIO_CHANNEL_NONE_def)
    then show ?thesis ..
  next
    case 2
    have "pair_layout s 1"
      using r 2 by (rule generic_pair_state_at [where c = 2])
        (simp_all add: g 2 pair_loop_back AUDIO_CHANNEL_NONE_def)
    then show ?thesis ..
  next
    case 3
    then have "mInputChannelMask s = AUDIO_CHANNEL_OUT_QUAD_BACK"
      by (simp add: layout_defs channel_defs)
    then have "pair_layout s 2" using r by (intro quad_pair_state) simp_all
    then show ?thesis ..
  next
    case 4
    have "pair_layout s 1"
      using r 4 by (rule generic_pair_state_at [where c = 2])
        (simp_all add: g 4 pair_loop_side AUDIO_CHANNEL_NONE_def)
    then show ?thesis ..
  next
    case 5
    then have "mInputChannelMask s = AUDIO_CHANNEL_OUT_QUAD_SIDE"
      by (simp add: layout_defs channel_defs)
    then have "pair_layout s 2" using r by (intro quad_pair_state) simp_all
    then show ?thesis ..
  next
    case 6
    have "pair_layout s 2"
      using r 6 by (rule generic_pair_state_at [where c = 4])
        (simp_all add: g 6 pair_loop_back_side AUDIO_CHANNEL_NONE_def)
    then show ?thesis ..
  next
    case 7
    have "pair_layout s 3"
      using r 7 by (rule generic_pair_state_at [where c = 6])
        (simp_all add: g 7 pair_loop_all AUDIO_CHANNEL_NONE_def)
    then show ?thesis ..
  qed
qed

lemma pairFrame_swapped:
  assumes "\<forall>k < 2 * np. h' (p + k) = h (p + swap_lr k)"
  shows "pairFrame np h' p = (snd (pairFrame np h p), fst (pairFrame np h p))"
proof -
  have a: "h' (p + 2 * j) = h (p + 2 * j + 1)" if "j < np" for j
  proof -
    have "2 * j < 2 * np" using that by simp
    then have "h' (p + 2 * j) = h (p + swap_lr (2 * j))" using assms by blast
    then show ?thesis by (simp add: swap_lr_def)
  qed
  have b: "h' (p + 2 * j + 1) = h (p + 2 * j)" if "j < np" for j
  proof -
    have "2 * j + 1 < 2 * np" using that by simp
    then have "h' (p + (2 * j + 1)) = h (p + swap_lr (2 * j + 1))" using assms by blast
    then show ?thesis by (simp add: swap_lr_def)
  qed
  show ?thesis
    unfolding pairFrame_def using a b by simp
qed

lemma swap_lr_small:
  "swap_lr 0 = 1" "swap_lr 1 = 0" "swap_lr (Suc 0) = 0" "swap_lr 2 = 3" "swap_lr 3 = 2"
  by (simp_all add: swap_lr_def)

lemma less_four: "k < 4 \<Longrightarrow> k = 0 \<or> k = 1 \<or> k = 2 \<or> k = (3::nat)"
  by arith

lemma stale_mixer_eval:
  "setInputChannelMask stereo_mixer AUDIO_CHANNEL_OUT_TOP_CENTER =
     (True, \<lparr>mMatrix = (replicate 24 (0, 0))[0 := (1/2, 0), 1 := (0, 1/2), 0 := (0, 0)],
             mInputChannelMask = 0x800, mLastValidChannelIndexPlusOne = 2,
             mInputChannelCount = 1\<rparr>)"
  by (simp add: stereo_mixer_eval configure_eval)

section \<open>The claims\<close>

text \<open>
  C3. A mask with a bit outside the 24 position slots is rejected: for every state a mixer
  can be in and every such mask, \<^verbatim>\<open>setInputChannelMask\<close> returns false and the
  whole state (mask, matrix, channel count, last valid index) is what it was; in
  particular \<^verbatim>\<open>getInputChannelMask\<close> still returns the mask configured before.
\<close>

theorem setInputChannelMask_rejects_out_of_range:
  assumes "reachable s" and "\<exists>n. FCC_24 \<le> n \<and> bit m n"
  shows "setInputChannelMask s m = (False, s)
     \<and> getInputChannelMask (snd (setInputChannelMask s m)) = getInputChannelMask s"
proof -
  have "position_mask (mInputChannelMask s)"
    using assms(1) by (rule reachable_position_mask)
  moreover have "\<not> position_mask m"
    using assms(2) by (simp add: position_mask_bits)
  ultimately have "mInputChannelMask s \<noteq> m" by auto
  with \<open>\<not> position_mask m\<close> show ?thesis
    by (simp add: setInputChannelMask_def position_mask_def)
qed

theorem setInputChannelMask_rejects_out_of_range_witness:
  "reachable stereo_mixer \<and> (\<exists>n. FCC_24 \<le> n \<and> bit (0x1000003 :: 32 word) n)
   \<and> setInputChannelMask stereo_mixer 0x1000003 = (False, stereo_mixer)
   \<and> getInputChannelMask (snd (setInputChannelMask stereo_mixer 0x1000003))
        = AUDIO_CHANNEL_OUT_STEREO"
proof -
  have "bit (0x1000003 :: 32 word) 24"
    by code_simp
  then have b: "\<exists>n. FCC_24 \<le> n \<and> bit (0x1000003 :: 32 word) n"
    by (intro exI [of _ 24]) (simp add: FCC_24_def)
  have g: "getInputChannelMask stereo_mixer = AUDIO_CHANNEL_OUT_STEREO"
    by (simp add: getInputChannelMask_def stereo_mixer_eval layout_defs channel_defs)
  show ?thesis
    using setInputChannelMask_rejects_out_of_range [OF reachable_stereo_mixer b]
      reachable_stereo_mixer b g
    by simp
qed

text \<open>
  C4. The four-argument \<^verbatim>\<open>process\<close> returns false exactly when the configured mask
  is \<^verbatim>\<open>AUDIO_CHANNEL_NONE\<close>, and a call that returns false has stored nothing: the
  memory after the call is the memory before it.
\<close>

theorem process_fails_iff_unconfigured:
  "(\<not> fst (process s h src dst frameCount accumulate))
      = (mInputChannelMask s = AUDIO_CHANNEL_NONE)
   \<and> (\<not> fst (process s h src dst frameCount accumulate)
        \<longrightarrow> snd (process s h src dst frameCount accumulate) = h)"
  by (simp add: process_def processSwitch_result processSwitch_unconfigured)

theorem process_fails_iff_unconfigured_witness:
  "\<not> fst (process (ChannelMix_default (replicate 24 (0, 0))) (\<lambda>a. 1/2) 0 100 3 True)
   \<and> snd (process (ChannelMix_default (replicate 24 (0, 0))) (\<lambda>a. 1/2) 0 100 3 True)
       = (\<lambda>a. 1/2)"
  using process_fails_iff_unconfigured
    [of "ChannelMix_default (replicate 24 (0, 0))" "\<lambda>a. 1/2" 0 100 3 True]
  by (simp add: ChannelMix_default_def)

text \<open>
  C8. Configuring the mask that is already configured is a no-op that succeeds: the call
  returns true and the matrix, the channel count, the last valid index and the mask are
  what they were. Hence a second \<^verbatim>\<open>setInputChannelMask(m)\<close> right after a first
  one returns what the first returned and leaves the state the first one reached.
\<close>

theorem setInputChannelMask_same_mask_noop:
  "(mInputChannelMask s = m \<longrightarrow>
      setInputChannelMask s m = (True, s)
      \<and> mMatrix (snd (setInputChannelMask s m)) = mMatrix s
      \<and> mInputChannelCount (snd (setInputChannelMask s m)) = mInputChannelCount s
      \<and> mLastValidChannelIndexPlusOne (snd (setInputChannelMask s m))
           = mLastValidChannelIndexPlusOne s
      \<and> mInputChannelMask (snd (setInputChannelMask s m)) = mInputChannelMask s)
   \<and> setInputChannelMask (snd (setInputChannelMask s m)) m = setInputChannelMask s m"
proof -
  have a: "mInputChannelMask s = m \<Longrightarrow> setInputChannelMask s m = (True, s)"
    by (simp add: setInputChannelMask_def)
  have b: "setInputChannelMask (snd (setInputChannelMask s m)) m = setInputChannelMask s m"
  proof (cases "fst (setInputChannelMask s m)")
    case True
    then have "mInputChannelMask (snd (setInputChannelMask s m)) = m"
      by (rule setInputChannelMask_mask)
    then have "setInputChannelMask (snd (setInputChannelMask s m)) m
                 = (True, snd (setInputChannelMask s m))"
      by (simp add: setInputChannelMask_def)
    with True show ?thesis by (simp add: prod_eq_iff)
  next
    case False
    then show ?thesis by (simp add: setInputChannelMask_fail)
  qed
  show ?thesis using a b by simp
qed

theorem setInputChannelMask_same_mask_noop_witness:
  "mInputChannelMask stereo_mixer = AUDIO_CHANNEL_OUT_STEREO
   \<and> setInputChannelMask stereo_mixer AUDIO_CHANNEL_OUT_STEREO = (True, stereo_mixer)"
  using setInputChannelMask_same_mask_noop [of stereo_mixer AUDIO_CHANNEL_OUT_STEREO]
  by (simp add: stereo_mixer_eval layout_defs channel_defs)

text \<open>
  C10. \<^verbatim>\<open>setInputChannelMask(AUDIO_CHANNEL_NONE)\<close> is not rejected: from every state
  it returns true, afterwards \<^verbatim>\<open>getInputChannelMask\<close> returns
  \<^verbatim>\<open>AUDIO_CHANNEL_NONE\<close> and every four-argument \<^verbatim>\<open>process\<close> call returns
  false. So the five-argument \<^verbatim>\<open>process\<close> with \<^verbatim>\<open>AUDIO_CHANNEL_NONE\<close>
  returns false and stores nothing, yet leaves the mixer in the state that
  \<^verbatim>\<open>setInputChannelMask(AUDIO_CHANNEL_NONE)\<close> produces: for a configured mixer the
  mask and the channel count have been replaced by \<^verbatim>\<open>AUDIO_CHANNEL_NONE\<close> and 0.
\<close>

theorem setInputChannelMask_none_unconfigures:
  "fst (setInputChannelMask s AUDIO_CHANNEL_NONE)
   \<and> getInputChannelMask (snd (setInputChannelMask s AUDIO_CHANNEL_NONE)) = AUDIO_CHANNEL_NONE
   \<and> \<not> fst (process (snd (setInputChannelMask s AUDIO_CHANNEL_NONE))
              h' src' dst' frameCount' accumulate')
   \<and> process_mask s h src dst frameCount accumulate AUDIO_CHANNEL_NONE
        = (False, snd (setInputChannelMask s AUDIO_CHANNEL_NONE), h)
   \<and> (mInputChannelMask s \<noteq> AUDIO_CHANNEL_NONE \<longrightarrow>
        snd (setInputChannelMask s AUDIO_CHANNEL_NONE)
          = s\<lparr>mInputChannelMask := AUDIO_CHANNEL_NONE, mInputChannelCount := 0\<rparr>
        \<and> snd (setInputChannelMask s AUDIO_CHANNEL_NONE) \<noteq> s)"
proof -
  let ?s' = "snd (setInputChannelMask s AUDIO_CHANNEL_NONE)"
  have ok: "fst (setInputChannelMask s AUDIO_CHANNEL_NONE)"
    by (simp add: setInputChannelMask_def AUDIO_CHANNEL_NONE_def
        setInputChannelMask_loop_zero)
  then have m: "mInputChannelMask ?s' = AUDIO_CHANNEL_NONE"
    by (rule setInputChannelMask_mask)
  have p: "process ?s' g a b k c = (False, g)" for g a b k c
    using m by (simp add: process_def processSwitch_unconfigured)
  have pm: "process_mask s h src dst frameCount accumulate AUDIO_CHANNEL_NONE = (False, ?s', h)"
    using ok p by (simp add: process_mask_def split_beta)
  have r: "mInputChannelMask s \<noteq> AUDIO_CHANNEL_NONE \<Longrightarrow>
        ?s' = s\<lparr>mInputChannelMask := AUDIO_CHANNEL_NONE, mInputChannelCount := 0\<rparr>"
    by (simp add: setInputChannelMask_def AUDIO_CHANNEL_NONE_def
        setInputChannelMask_loop_zero)
  have d: "mInputChannelMask s \<noteq> AUDIO_CHANNEL_NONE \<Longrightarrow> ?s' \<noteq> s"
    using m by auto
  show ?thesis using ok m p pm r d by (simp add: getInputChannelMask_def)
qed

theorem setInputChannelMask_none_unconfigures_witness:
  "mInputChannelMask stereo_mixer \<noteq> AUDIO_CHANNEL_NONE
   \<and> snd (setInputChannelMask stereo_mixer AUDIO_CHANNEL_NONE)
        = stereo_mixer\<lparr>mInputChannelMask := AUDIO_CHANNEL_NONE, mInputChannelCount := 0\<rparr>
   \<and> snd (setInputChannelMask stereo_mixer AUDIO_CHANNEL_NONE) \<noteq> stereo_mixer
   \<and> process_mask stereo_mixer (\<lambda>a. 1/4) 0 100 1 False AUDIO_CHANNEL_NONE
        = (False,
           stereo_mixer\<lparr>mInputChannelMask := AUDIO_CHANNEL_NONE, mInputChannelCount := 0\<rparr>,
           \<lambda>a. 1/4)"
proof -
  have n: "mInputChannelMask stereo_mixer \<noteq> AUDIO_CHANNEL_NONE"
    by (simp add: stereo_mixer_eval channel_defs)
  show ?thesis
    using setInputChannelMask_none_unconfigures
      [of stereo_mixer "\<lambda>a. 1/4" 0 100 1 False "\<lambda>a. 1/4" 0 100 1 False] n
    by (simp add: stereo_mixer_eval channel_defs)
qed

text \<open>
  C1. For the five masks with a fast path (quad back, quad side, 5.1 back, 5.1 side, 7.1),
  in every state a mixer can be in, \<^verbatim>\<open>process\<close> runs \<^verbatim>\<open>specificProcess\<close>
  with 4, 6 or 8 channels, and for every memory, source and destination pointer, frame
  count and accumulate flag the fast path returns the same flag and leaves the same memory
  as \<^verbatim>\<open>matrixProcess\<close> on the matrix configured for that mask (in exact arithmetic).
\<close>

theorem fast_path_equals_matrix_path:
  assumes "reachable s"
  shows "(mInputChannelMask s = AUDIO_CHANNEL_OUT_QUAD_BACK
            \<or> mInputChannelMask s = AUDIO_CHANNEL_OUT_QUAD_SIDE \<longrightarrow>
          process s h src dst frameCount accumulate
            = specificProcess 4 accumulate h src dst frameCount
          \<and> specificProcess 4 accumulate h src dst frameCount
            = matrixProcess s h src dst frameCount accumulate)
       \<and> (mInputChannelMask s = AUDIO_CHANNEL_OUT_5POINT1_BACK
            \<or> mInputChannelMask s = AUDIO_CHANNEL_OUT_5POINT1_SIDE \<longrightarrow>
          process s h src dst frameCount accumulate
            = specificProcess 6 accumulate h src dst frameCount
          \<and> specificProcess 6 accumulate h src dst frameCount
            = matrixProcess s h src dst frameCount accumulate)
       \<and> (mInputChannelMask s = AUDIO_CHANNEL_OUT_7POINT1 \<longrightarrow>
          process s h src dst frameCount accumulate
            = specificProcess 8 accumulate h src dst frameCount
          \<and> specificProcess 8 accumulate h src dst frameCount
            = matrixProcess s h src dst frameCount accumulate)"
proof (intro conjI impI)
  assume m: "mInputChannelMask s = AUDIO_CHANNEL_OUT_QUAD_BACK
            \<or> mInputChannelMask s = AUDIO_CHANNEL_OUT_QUAD_SIDE"
  then show "process s h src dst frameCount accumulate
            = specificProcess 4 accumulate h src dst frameCount"
    by (auto simp add: process_def processSwitch_def)
  have "mInputChannelMask s \<noteq> AUDIO_CHANNEL_NONE"
    using m by (auto simp add: layout_defs channel_defs)
  then show "specificProcess 4 accumulate h src dst frameCount
            = matrixProcess s h src dst frameCount accumulate"
    using quad_state [OF assms m] by (intro matrixProcess_fast) simp_all
next
  assume m: "mInputChannelMask s = AUDIO_CHANNEL_OUT_5POINT1_BACK
            \<or> mInputChannelMask s = AUDIO_CHANNEL_OUT_5POINT1_SIDE"
  then show "process s h src dst frameCount accumulate
            = specificProcess 6 accumulate h src dst frameCount"
    by (auto simp add: process_def processSwitch_def layout_defs channel_defs)
  have "mInputChannelMask s \<noteq> AUDIO_CHANNEL_NONE"
    using m by (auto simp add: layout_defs channel_defs)
  then show "specificProcess 6 accumulate h src dst frameCount
            = matrixProcess s h src dst frameCount accumulate"
    using five_one_state [OF assms m] by (intro matrixProcess_fast) simp_all
next
  assume m: "mInputChannelMask s = AUDIO_CHANNEL_OUT_7POINT1"
  then show "process s h src dst frameCount accumulate
            = specificProcess 8 accumulate h src dst frameCount"
    by (auto simp add: process_def processSwitch_def layout_defs channel_defs)
  have "mInputChannelMask s \<noteq> AUDIO_CHANNEL_NONE"
    using m by (auto simp add: layout_defs channel_defs)
  then show "specificProcess 8 accumulate h src dst frameCount
            = matrixProcess s h src dst frameCount accumulate"
    using seven_one_state [OF assms m] by (intro matrixProcess_fast) simp_all
qed

theorem fast_path_equals_matrix_path_witness:
  "reachable five_one_mixer
   \<and> mInputChannelMask five_one_mixer = AUDIO_CHANNEL_OUT_5POINT1_BACK
   \<and> process five_one_mixer center_lfe_store 0 6 1 False
       = specificProcess 6 False center_lfe_store 0 6 1
   \<and> specificProcess 6 False center_lfe_store 0 6 1
       = matrixProcess five_one_mixer center_lfe_store 0 6 1 False
   \<and> snd (matrixProcess five_one_mixer center_lfe_store 0 6 1 False) 6 = MINUS_3_DB_IN_FLOAT
   \<and> snd (matrixProcess five_one_mixer center_lfe_store 0 6 1 False) 7 = MINUS_3_DB_IN_FLOAT"
proof -
  have v: "snd (specificProcess 6 False center_lfe_store 0 6 1) 6 = MINUS_3_DB_IN_FLOAT"
    "snd (specificProcess 6 False center_lfe_store 0 6 1) 7 = MINUS_3_DB_IN_FLOAT"
    by (simp_all add: specificFrame_def center_lfe_store_def clamp_def LIMIT_AMPLITUDE_def
        MINUS_3_DB_IN_FLOAT_def mOutputChannelCount_def FCC_2_def)
  show ?thesis
    using fast_path_equals_matrix_path [OF reachable_five_one_mixer,
        of center_lfe_store 0 6 1 False]
      reachable_five_one_mixer five_one_mixer_mask v
    by simp
qed

text \<open>
  C5. On a configured mixer \<^verbatim>\<open>matrixProcess\<close> (the path \<^verbatim>\<open>process\<close> takes for
  every mask without a fast path) succeeds and, for every frame \<open>f\<close> below the frame
  count, stores at \<open>dst[2f]\<close> the clamp of the sum over \<open>i\<close> below
  \<^verbatim>\<open>mLastValidChannelIndexPlusOne\<close> of \<open>mMatrix[i][0] * src[f * mInputChannelCount + i]\<close>,
  plus the old \<open>dst[2f]\<close> when accumulating; \<open>dst[2f+1]\<close> likewise with
  \<open>mMatrix[i][1]\<close>. Every address outside the \<open>2 * frameCount\<close> destination samples
  keeps its value, so exactly those samples are written and a source buffer apart from
  them is not modified. The source samples are those at call time provided the samples
  frame \<open>f\<close> reads are not destination samples of earlier frames, which holds for
  buffers that do not overlap.
\<close>

theorem matrixProcess_frames:
  assumes "mInputChannelMask s \<noteq> AUDIO_CHANNEL_NONE"
    and "\<forall>f<frameCount. \<forall>i<mLastValidChannelIndexPlusOne s.
           src + f * mInputChannelCount s + i \<notin> {dst ..< dst + 2 * f}"
  shows "fst (matrixProcess s h src dst frameCount accumulate)
     \<and> (\<forall>f<frameCount.
          snd (matrixProcess s h src dst frameCount accumulate) (dst + 2 * f)
            = clamp ((if accumulate then h (dst + 2 * f) else 0)
                + (\<Sum>i<mLastValidChannelIndexPlusOne s.
                     fst (mMatrix s ! i) * h (src + f * mInputChannelCount s + i)))
        \<and> snd (matrixProcess s h src dst frameCount accumulate) (dst + 2 * f + 1)
            = clamp ((if accumulate then h (dst + 2 * f + 1) else 0)
                + (\<Sum>i<mLastValidChannelIndexPlusOne s.
                     snd (mMatrix s ! i) * h (src + f * mInputChannelCount s + i))))
     \<and> (\<forall>a. a \<notin> {dst ..< dst + 2 * frameCount} \<longrightarrow>
          snd (matrixProcess s h src dst frameCount accumulate) a = h a)
     \<and> (fast_path_channels s = None \<longrightarrow>
          process s h src dst frameCount accumulate
            = matrixProcess s h src dst frameCount accumulate)"
proof -
  have m: "matrixProcess s h src dst frameCount accumulate
             = (True, frameLoop (matrixFrame s) (mInputChannelCount s) accumulate
                        h src dst frameCount)"
    using assms(1) by (simp add: matrixProcess_def matrixProcess_loop_frameLoop)
  have fr: "frameLoop (matrixFrame s) (mInputChannelCount s) accumulate h src dst frameCount
              (dst + 2 * f)
            = clamp ((if accumulate then h (dst + 2 * f) else 0)
                + fst (matrixFrame s h (src + f * mInputChannelCount s)))
        \<and> frameLoop (matrixFrame s) (mInputChannelCount s) accumulate h src dst frameCount
              (dst + 2 * f + 1)
            = clamp ((if accumulate then h (dst + 2 * f + 1) else 0)
                + snd (matrixFrame s h (src + f * mInputChannelCount s)))"
    if "f < frameCount" for f
    using matrixFrame_reads assms(2) that by (rule frameLoop_frame)
  show ?thesis
    unfolding m using fr
    by (simp add: frameLoop_outside process_processSwitch processSwitch_generic m
        matrixFrame_sum add.assoc)
qed

theorem matrixProcess_frames_witness:
  "mInputChannelMask stereo_mixer \<noteq> AUDIO_CHANNEL_NONE
   \<and> {0 ..< 2 * mInputChannelCount stereo_mixer} \<inter> {4 ..< 4 + 2 * 2} = {}
   \<and> fst (matrixProcess stereo_mixer demo_store 0 4 2 True)
   \<and> snd (matrixProcess stereo_mixer demo_store 0 4 2 True) 4 = 1/2
   \<and> snd (matrixProcess stereo_mixer demo_store 0 4 2 True) 5 = 1/2
   \<and> snd (matrixProcess stereo_mixer demo_store 0 4 2 True) 6 = 1/2
   \<and> snd (matrixProcess stereo_mixer demo_store 0 4 2 True) 7 = 1/2
   \<and> snd (matrixProcess stereo_mixer demo_store 0 4 2 True) 3 = demo_store 3
   \<and> snd (matrixProcess stereo_mixer demo_store 0 4 2 True) 8 = demo_store 8
   \<and> process stereo_mixer demo_store 0 4 2 True
        = matrixProcess stereo_mixer demo_store 0 4 2 True"
proof -
  have a: "mInputChannelMask stereo_mixer \<noteq> AUDIO_CHANNEL_NONE"
    by (rule stereo_mixer_fields)
  have d: "{0 ..< 2 * mInputChannelCount stereo_mixer} \<inter> {4 ..< 4 + 2 * 2} = {}"
    by (simp add: stereo_mixer_fields)
  have b: "\<forall>f<2. \<forall>i<mLastValidChannelIndexPlusOne stereo_mixer.
           0 + f * mInputChannelCount stereo_mixer + i \<notin> {4 ..< 4 + 2 * f}"
    by (simp add: stereo_mixer_fields)
  have c: "fast_path_channels stereo_mixer = None"
    by (rule stereo_mixer_fields)
  have t: "(0::nat) < 2" "(1::nat) < 2" "(3::nat) \<notin> {4 ..< 4 + 2 * 2}"
    "(8::nat) \<notin> {4 ..< 4 + 2 * 2}"
    by simp_all
  note r = matrixProcess_frames [OF a b, of demo_store True]
  have f0: "snd (matrixProcess stereo_mixer demo_store 0 4 2 True) (4 + 2 * 0) = 1/2"
    "snd (matrixProcess stereo_mixer demo_store 0 4 2 True) (4 + 2 * 0 + 1) = 1/2"
    using r [THEN conjunct2, THEN conjunct1, rule_format, OF t(1)]
    by (simp_all add: stereo_mixer_fields sum_two demo_store_def clamp_def
        LIMIT_AMPLITUDE_def)
  have f1: "snd (matrixProcess stereo_mixer demo_store 0 4 2 True) (4 + 2 * 1) = 1/2"
    "snd (matrixProcess stereo_mixer demo_store 0 4 2 True) (4 + 2 * 1 + 1) = 1/2"
    using r [THEN conjunct2, THEN conjunct1, rule_format, OF t(2)]
    by (simp_all add: stereo_mixer_fields sum_two demo_store_def clamp_def
        LIMIT_AMPLITUDE_def)
  have o: "snd (matrixProcess stereo_mixer demo_store 0 4 2 True) 3 = demo_store 3"
    "snd (matrixProcess stereo_mixer demo_store 0 4 2 True) 8 = demo_store 8"
    using r t(3,4) by blast+
  have p: "process stereo_mixer demo_store 0 4 2 True
        = matrixProcess stereo_mixer demo_store 0 4 2 True"
    using r c by blast
  have ok: "fst (matrixProcess stereo_mixer demo_store 0 4 2 True)"
    using r by blast
  show ?thesis
    using a d ok f0 f1 o p by simp
qed

text \<open>
  C6. \<^verbatim>\<open>clamp\<close> is \<open>min (max x (-1)) 1\<close>. After every successful
  \<^verbatim>\<open>process\<close> call, on the generic and on the fast paths, with or without
  accumulation, for every memory, each of the \<open>2 * frameCount\<close> destination samples lies
  in \<open>[-1, 1]\<close>. In particular, accumulating onto a destination sample of 0.9 a
  contribution that brings the sum to 1.2 stores exactly 1.
\<close>

theorem outputs_are_clamped:
  "clamp x = min (max x (- 1)) 1
   \<and> (fst (process s h src dst frameCount accumulate) \<longrightarrow>
        (\<forall>a\<in>{dst ..< dst + 2 * frameCount}.
           - 1 \<le> snd (process s h src dst frameCount accumulate) a
           \<and> snd (process s h src dst frameCount accumulate) a \<le> 1))
   \<and> (mInputChannelMask s \<noteq> AUDIO_CHANNEL_NONE \<and> 0 < frameCount
        \<and> h dst = 9/10 \<and> h dst + fst (frameContribution s h src) = 12/10 \<longrightarrow>
        snd (process s h src dst frameCount True) dst = 1)
   \<and> (mInputChannelMask s \<noteq> AUDIO_CHANNEL_NONE \<and> 0 < frameCount
        \<and> h (dst + 1) = 9/10 \<and> h (dst + 1) + snd (frameContribution s h src) = 12/10 \<longrightarrow>
        snd (process s h src dst frameCount True) (dst + 1) = 1)"
proof (intro conjI impI ballI)
  show "clamp x = min (max x (- 1)) 1"
    by (simp add: clamp_def LIMIT_AMPLITUDE_def)
next
  fix a
  assume ok: "fst (process s h src dst frameCount accumulate)"
    and a: "a \<in> {dst ..< dst + 2 * frameCount}"
  have "mInputChannelMask s \<noteq> AUDIO_CHANNEL_NONE"
    using ok by (simp add: process_processSwitch processSwitch_result)
  then have p: "snd (process s h src dst frameCount accumulate)
           = frameLoop (frameContribution s) (frameStride s) accumulate h src dst frameCount"
    by (simp add: process_frameLoop)
  show "- 1 \<le> snd (process s h src dst frameCount accumulate) a"
    unfolding p using frameLoop_bounded [OF a] by blast
  show "snd (process s h src dst frameCount accumulate) a \<le> 1"
    unfolding p using frameLoop_bounded [OF a] by blast
next
  assume "mInputChannelMask s \<noteq> AUDIO_CHANNEL_NONE \<and> 0 < frameCount
        \<and> h dst = 9/10 \<and> h dst + fst (frameContribution s h src) = 12/10"
  then show "snd (process s h src dst frameCount True) dst = 1"
    using frameLoop_first [of frameCount "frameContribution s" "frameStride s" True h src dst]
    by (simp add: process_frameLoop clamp_ge_one)
next
  assume "mInputChannelMask s \<noteq> AUDIO_CHANNEL_NONE \<and> 0 < frameCount
        \<and> h (dst + 1) = 9/10 \<and> h (dst + 1) + snd (frameContribution s h src) = 12/10"
  then show "snd (process s h src dst frameCount True) (dst + 1) = 1"
    using frameLoop_first [of frameCount "frameContribution s" "frameStride s" True h src dst]
    by (simp add: process_frameLoop clamp_ge_one)
qed

theorem outputs_are_clamped_witness:
  "fst (process stereo_mixer loud_store 0 2 1 True)
   \<and> - 1 \<le> snd (process stereo_mixer loud_store 0 2 1 True) 2
   \<and> snd (process stereo_mixer loud_store 0 2 1 True) 2 \<le> 1
   \<and> - 1 \<le> snd (process stereo_mixer loud_store 0 2 1 True) 3
   \<and> snd (process stereo_mixer loud_store 0 2 1 True) 3 \<le> 1
   \<and> mInputChannelMask stereo_mixer \<noteq> AUDIO_CHANNEL_NONE \<and> (0::nat) < 1
   \<and> loud_store 2 = 9/10
   \<and> loud_store 2 + fst (frameContribution stereo_mixer loud_store 0) = 12/10
   \<and> snd (process stereo_mixer loud_store 0 2 1 True) 2 = 1
   \<and> loud_store (2 + 1) = 9/10
   \<and> loud_store (2 + 1) + snd (frameContribution stereo_mixer loud_store 0) = 12/10
   \<and> snd (process stereo_mixer loud_store 0 2 1 True) (2 + 1) = 1"
proof -
  have m: "mInputChannelMask stereo_mixer \<noteq> AUDIO_CHANNEL_NONE"
    by (rule stereo_mixer_fields)
  then have ok: "fst (process stereo_mixer loud_store 0 2 1 True)"
    by (simp add: process_processSwitch processSwitch_result)
  have l: "loud_store 2 = 9/10" "loud_store (2 + 1) = 9/10"
    "loud_store 2 + fst (frameContribution stereo_mixer loud_store 0) = 12/10"
    "loud_store (2 + 1) + snd (frameContribution stereo_mixer loud_store 0) = 12/10"
    by (simp_all add: loud_store_def stereo_mixer_contribution)
  have z: "(0::nat) < 1" by simp
  have i: "(2::nat) \<in> {2 ..< 2 + 2 * 1}" "(3::nat) \<in> {2 ..< 2 + 2 * 1}" by simp_all
  note r = outputs_are_clamped [of 0 stereo_mixer loud_store 0 2 1 True]
  have b: "- 1 \<le> snd (process stereo_mixer loud_store 0 2 1 True) 2"
    "snd (process stereo_mixer loud_store 0 2 1 True) 2 \<le> 1"
    "- 1 \<le> snd (process stereo_mixer loud_store 0 2 1 True) 3"
    "snd (process stereo_mixer loud_store 0 2 1 True) 3 \<le> 1"
    using r ok i by blast+
  have e: "snd (process stereo_mixer loud_store 0 2 1 True) 2 = 1"
    "snd (process stereo_mixer loud_store 0 2 1 True) (2 + 1) = 1"
    using r m l z by blast+
  show ?thesis
    using ok b m z l e by blast
qed

text \<open>
  C7. On a configured mixer, with a destination buffer that is all zero and that the
  source frames do not overlap, and with no doubled per-frame contribution outside
  \<open>[-1, 1]\<close>: mixing twice with accumulation leaves in every destination sample twice
  what mixing once without accumulation leaves there.
\<close>

theorem accumulate_twice_is_double:
  assumes conf: "mInputChannelMask s \<noteq> AUDIO_CHANNEL_NONE"
    and sep: "\<forall>f<frameCount. \<forall>i<frameReads s.
                src + f * frameStride s + i \<notin> {dst ..< dst + 2 * frameCount}"
    and zero: "\<forall>a\<in>{dst ..< dst + 2 * frameCount}. h a = 0"
    and noclip: "\<forall>f<frameCount.
                \<bar>2 * fst (frameContribution s h (src + f * frameStride s))\<bar> \<le> 1
              \<and> \<bar>2 * snd (frameContribution s h (src + f * frameStride s))\<bar> \<le> 1"
  shows "fst (process s h src dst frameCount True)
     \<and> fst (process s (snd (process s h src dst frameCount True)) src dst frameCount True)
     \<and> fst (process s h src dst frameCount False)
     \<and> (\<forall>a\<in>{dst ..< dst + 2 * frameCount}.
          snd (process s (snd (process s h src dst frameCount True)) src dst frameCount True) a
            = 2 * snd (process s h src dst frameCount False) a)"
proof -
  let ?F = "frameContribution s" and ?c = "frameStride s"
  define h1 where "h1 = frameLoop ?F ?c True h src dst frameCount"
  define h2 where "h2 = frameLoop ?F ?c True h1 src dst frameCount"
  define g where "g = frameLoop ?F ?c False h src dst frameCount"
  have p1: "process s h src dst frameCount True = (True, h1)"
    and p2: "process s h1 src dst frameCount True = (True, h2)"
    and p3: "process s h src dst frameCount False = (True, g)"
    using conf by (simp_all add: process_frameLoop h1_def h2_def g_def)
  have weak: "\<forall>f<frameCount. \<forall>i<frameReads s.
                src + f * ?c + i \<notin> {dst ..< dst + 2 * f}"
  proof (intro allI impI)
    fix f i assume "f < frameCount" "i < frameReads s"
    then have "src + f * ?c + i \<notin> {dst ..< dst + 2 * frameCount}"
      using sep by blast
    then show "src + f * ?c + i \<notin> {dst ..< dst + 2 * f}"
      using \<open>f < frameCount\<close> by auto
  qed
  have same: "?F h1 (src + f * ?c) = ?F h (src + f * ?c)" if "f < frameCount" for f
  proof -
    have "\<forall>i<frameReads s. h1 (src + f * ?c + i) = h (src + f * ?c + i)"
      using sep that by (simp add: h1_def frameLoop_outside)
    then show ?thesis
      using frameContribution_reads [of s] unfolding reads_only_def by blast
  qed
  have small: "\<bar>fst (?F h (src + f * ?c))\<bar> \<le> 1" "\<bar>snd (?F h (src + f * ?c))\<bar> \<le> 1"
    "\<bar>fst (?F h (src + f * ?c)) + fst (?F h (src + f * ?c))\<bar> \<le> 1"
    "\<bar>snd (?F h (src + f * ?c)) + snd (?F h (src + f * ?c))\<bar> \<le> 1"
    if "f < frameCount" for f
    using noclip that by (auto simp add: abs_le_iff)
  have z: "h (dst + 2 * f) = 0" "h (dst + 2 * f + 1) = 0" if "f < frameCount" for f
    using zero that by auto
  have v1: "h1 (dst + 2 * f) = fst (?F h (src + f * ?c))"
    "h1 (dst + 2 * f + 1) = snd (?F h (src + f * ?c))" if "f < frameCount" for f
    using frameLoop_frame [OF frameContribution_reads weak that, of True h]
      z [OF that] small [OF that]
    by (simp_all add: h1_def clamp_id)
  have vg: "g (dst + 2 * f) = fst (?F h (src + f * ?c))"
    "g (dst + 2 * f + 1) = snd (?F h (src + f * ?c))" if "f < frameCount" for f
    using frameLoop_frame [OF frameContribution_reads weak that, of False h]
      small [OF that]
    by (simp_all add: g_def clamp_id)
  have v2: "h2 (dst + 2 * f) = 2 * fst (?F h (src + f * ?c))"
    "h2 (dst + 2 * f + 1) = 2 * snd (?F h (src + f * ?c))" if "f < frameCount" for f
    using frameLoop_frame [OF frameContribution_reads weak that, of True h1]
      v1 [OF that] same [OF that] small [OF that]
    by (simp_all add: h2_def clamp_id)
  have "h2 a = 2 * g a" if "a \<in> {dst ..< dst + 2 * frameCount}" for a
  proof (rule dst_range_cases [OF that])
    fix f assume "f < frameCount" "a = dst + 2 * f"
    then show ?thesis using v2(1) [of f] vg(1) [of f] by simp
  next
    fix f assume "f < frameCount" "a = dst + 2 * f + 1"
    then show ?thesis using v2(2) [of f] vg(2) [of f] by simp
  qed
  then show ?thesis by (simp add: p1 p2 p3)
qed

theorem accumulate_twice_is_double_witness:
  "mInputChannelMask stereo_mixer \<noteq> AUDIO_CHANNEL_NONE
   \<and> {0 ..< 2 * frameStride stereo_mixer} \<inter> {4 ..< 4 + 2 * 2} = {}
   \<and> quiet_store 4 = 0 \<and> quiet_store 5 = 0 \<and> quiet_store 6 = 0 \<and> quiet_store 7 = 0
   \<and> \<bar>2 * fst (frameContribution stereo_mixer quiet_store 0)\<bar> \<le> 1
   \<and> \<bar>2 * snd (frameContribution stereo_mixer quiet_store 0)\<bar> \<le> 1
   \<and> \<bar>2 * fst (frameContribution stereo_mixer quiet_store 2)\<bar> \<le> 1
   \<and> \<bar>2 * snd (frameContribution stereo_mixer quiet_store 2)\<bar> \<le> 1
   \<and> snd (process stereo_mixer quiet_store 0 4 2 False) 4 = 1/4
   \<and> snd (process stereo_mixer
            (snd (process stereo_mixer quiet_store 0 4 2 True)) 0 4 2 True) 4
         = 2 * snd (process stereo_mixer quiet_store 0 4 2 False) 4
   \<and> snd (process stereo_mixer
            (snd (process stereo_mixer quiet_store 0 4 2 True)) 0 4 2 True) 5
         = 2 * snd (process stereo_mixer quiet_store 0 4 2 False) 5
   \<and> snd (process stereo_mixer
            (snd (process stereo_mixer quiet_store 0 4 2 True)) 0 4 2 True) 6
         = 2 * snd (process stereo_mixer quiet_store 0 4 2 False) 6
   \<and> snd (process stereo_mixer
            (snd (process stereo_mixer quiet_store 0 4 2 True)) 0 4 2 True) 7
         = 2 * snd (process stereo_mixer quiet_store 0 4 2 False) 7"
proof -
  have a: "mInputChannelMask stereo_mixer \<noteq> AUDIO_CHANNEL_NONE"
    by (rule stereo_mixer_fields)
  have dj: "{0 ..< 2 * frameStride stereo_mixer} \<inter> {4 ..< 4 + 2 * 2} = {}"
    by (simp add: stereo_mixer_dispatch)
  have b: "\<forall>f<2. \<forall>i<frameReads stereo_mixer.
         0 + f * frameStride stereo_mixer + i \<notin> {4 ..< 4 + 2 * 2}"
    by (auto simp add: stereo_mixer_dispatch)
  have c: "\<forall>a\<in>{4 ..< 4 + 2 * 2}. quiet_store a = 0"
    by (simp add: quiet_store_def)
  have d: "\<forall>f<2.
         \<bar>2 * fst (frameContribution stereo_mixer quiet_store
                      (0 + f * frameStride stereo_mixer))\<bar> \<le> 1
       \<and> \<bar>2 * snd (frameContribution stereo_mixer quiet_store
                      (0 + f * frameStride stereo_mixer))\<bar> \<le> 1"
    by (simp add: stereo_mixer_contribution quiet_store_def)
  have q: "quiet_store 4 = 0" "quiet_store 5 = 0" "quiet_store 6 = 0" "quiet_store 7 = 0"
    "\<bar>2 * fst (frameContribution stereo_mixer quiet_store 0)\<bar> \<le> 1"
    "\<bar>2 * snd (frameContribution stereo_mixer quiet_store 0)\<bar> \<le> 1"
    "\<bar>2 * fst (frameContribution stereo_mixer quiet_store 2)\<bar> \<le> 1"
    "\<bar>2 * snd (frameContribution stereo_mixer quiet_store 2)\<bar> \<le> 1"
    by (simp_all add: stereo_mixer_contribution quiet_store_def)
  have i: "(4::nat) \<in> {4 ..< 4 + 2 * 2}" "(5::nat) \<in> {4 ..< 4 + 2 * 2}"
    "(6::nat) \<in> {4 ..< 4 + 2 * 2}" "(7::nat) \<in> {4 ..< 4 + 2 * 2}"
    by simp_all
  note r = accumulate_twice_is_double [OF a b c d]
  have e: "snd (process stereo_mixer
            (snd (process stereo_mixer quiet_store 0 4 2 True)) 0 4 2 True) k
         = 2 * snd (process stereo_mixer quiet_store 0 4 2 False) k"
    if "k \<in> {4 ..< 4 + 2 * 2}" for k
    using r that by blast
  have v: "snd (process stereo_mixer quiet_store 0 4 2 False) 4 = 1/4"
    using frameLoop_first [of 2 "frameContribution stereo_mixer" "frameStride stereo_mixer"
        False quiet_store 0 4]
    by (simp add: process_frameLoop [OF a] stereo_mixer_contribution quiet_store_def
        clamp_def LIMIT_AMPLITUDE_def)
  show ?thesis
    using a dj q v e [OF i(1)] e [OF i(2)] e [OF i(3)] e [OF i(4)] by blast
qed

text \<open>
  C9. For a mixer configured with a mask made only of mirrored left/right pairs (front,
  back, side, in any combination): if a second memory holds the source buffer with the two
  samples of every pair exchanged (and, when accumulating, the destination buffer with left
  and right exchanged), then mixing it with the same accumulate flag leaves the destination
  of the first memory's mix with left and right exchanged in every frame.
\<close>

theorem mirrored_input_swaps_output:
  assumes r: "reachable s"
    and m: "mInputChannelMask s = mirrored_pairs_mask front_pair back_pair side_pair"
    and n: "mInputChannelMask s \<noteq> AUDIO_CHANNEL_NONE"
    and sep: "\<forall>f<frameCount. \<forall>i<mInputChannelCount s.
                src + f * mInputChannelCount s + i \<notin> {dst ..< dst + 2 * f}"
    and swapped: "\<forall>k < frameCount * mInputChannelCount s. h' (src + k) = h (src + swap_lr k)"
    and mirrored: "accumulate \<longrightarrow> (\<forall>k < 2 * frameCount. h' (dst + k) = h (dst + swap_lr k))"
  shows "fst (process s h src dst frameCount accumulate)
     \<and> fst (process s h' src dst frameCount accumulate)
     \<and> (\<forall>k < 2 * frameCount.
          snd (process s h' src dst frameCount accumulate) (dst + k)
            = snd (process s h src dst frameCount accumulate) (dst + swap_lr k))"
proof -
  obtain np where "pair_layout s np"
    using mirrored_state [OF r m n] by blast
  then have c: "mInputChannelCount s = 2 * np" and st: "frameStride s = 2 * np"
    and rd: "frameReads s = 2 * np" and F: "frameContribution s = pairFrame np"
    by (simp_all add: pair_layout_def)
  let ?c = "2 * np"
  define g where "g = frameLoop (pairFrame np) ?c accumulate h src dst frameCount"
  define g' where "g' = frameLoop (pairFrame np) ?c accumulate h' src dst frameCount"
  have p: "process s h src dst frameCount accumulate = (True, g)"
    and p': "process s h' src dst frameCount accumulate = (True, g')"
    using n by (simp_all add: process_frameLoop st F g_def g'_def)
  have ro: "reads_only (pairFrame np) ?c"
    using frameContribution_reads [of s] by (simp add: rd F)
  have weak: "\<forall>f<frameCount. \<forall>i<?c. src + f * ?c + i \<notin> {dst ..< dst + 2 * f}"
    using sep by (simp add: c)
  have src_swap: "pairFrame np h' (src + f * ?c)
                    = (snd (pairFrame np h (src + f * ?c)), fst (pairFrame np h (src + f * ?c)))"
    if "f < frameCount" for f
  proof (rule pairFrame_swapped, intro allI impI)
    fix k assume k: "k < ?c"
    have "f * ?c + k < frameCount * ?c"
    proof -
      have "f * ?c + k < f * ?c + ?c" using k by simp
      also have "\<dots> = (f + 1) * ?c" by (simp add: algebra_simps)
      also have "\<dots> \<le> frameCount * ?c" using that by (intro mult_le_mono1) simp
      finally show ?thesis .
    qed
    then have "h' (src + (f * ?c + k)) = h (src + swap_lr (f * ?c + k))"
      using swapped by (simp add: c)
    moreover have "swap_lr (f * ?c + k) = f * ?c + swap_lr k"
    proof (cases "even k")
      case True
      then show ?thesis by (simp add: swap_lr_def)
    next
      case False
      then have "0 < k" by (auto intro: Nat.gr0I)
      then show ?thesis using False by (simp add: swap_lr_def)
    qed
    ultimately show "h' (src + f * ?c + k) = h (src + f * ?c + swap_lr k)"
      by (simp add: add.assoc)
  qed
  have old: "(if accumulate then h' (dst + 2 * f) else 0)
               = (if accumulate then h (dst + 2 * f + 1) else 0)"
    "(if accumulate then h' (dst + 2 * f + 1) else 0)
               = (if accumulate then h (dst + 2 * f) else 0)"
    if "f < frameCount" for f
  proof -
    have "2 * f < 2 * frameCount" "2 * f + 1 < 2 * frameCount" using that by simp_all
    then have "accumulate \<Longrightarrow> h' (dst + 2 * f) = h (dst + swap_lr (2 * f))"
      "accumulate \<Longrightarrow> h' (dst + (2 * f + 1)) = h (dst + swap_lr (2 * f + 1))"
      using mirrored by blast+
    then show "(if accumulate then h' (dst + 2 * f) else 0)
               = (if accumulate then h (dst + 2 * f + 1) else 0)"
      "(if accumulate then h' (dst + 2 * f + 1) else 0)
               = (if accumulate then h (dst + 2 * f) else 0)"
      by (simp_all add: swap_lr_def)
  qed
  have out: "g' (dst + 2 * f) = g (dst + 2 * f + 1)" "g' (dst + 2 * f + 1) = g (dst + 2 * f)"
    if "f < frameCount" for f
  proof -
    have a: "g (dst + 2 * f)
           = clamp ((if accumulate then h (dst + 2 * f) else 0)
               + fst (pairFrame np h (src + f * ?c)))"
      "g (dst + 2 * f + 1)
           = clamp ((if accumulate then h (dst + 2 * f + 1) else 0)
               + snd (pairFrame np h (src + f * ?c)))"
      using frameLoop_frame [OF ro weak that, of accumulate h] by (simp_all add: g_def)
    have b: "g' (dst + 2 * f)
           = clamp ((if accumulate then h' (dst + 2 * f) else 0)
               + fst (pairFrame np h' (src + f * ?c)))"
      "g' (dst + 2 * f + 1)
           = clamp ((if accumulate then h' (dst + 2 * f + 1) else 0)
               + snd (pairFrame np h' (src + f * ?c)))"
      using frameLoop_frame [OF ro weak that, of accumulate h'] by (simp_all add: g'_def)
    show "g' (dst + 2 * f) = g (dst + 2 * f + 1)"
      unfolding a b old [OF that] src_swap [OF that] by simp
    show "g' (dst + 2 * f + 1) = g (dst + 2 * f)"
      unfolding a b old [OF that] src_swap [OF that] by simp
  qed
  have "g' (dst + k) = g (dst + swap_lr k)" if "k < 2 * frameCount" for k
  proof (cases "even k")
    case True
    then obtain f where "k = 2 * f" by (auto elim: evenE)
    then show ?thesis using out(1) [of f] that by (simp add: swap_lr_def)
  next
    case False
    then obtain f where "k = 2 * f + 1" by (auto elim: oddE)
    then show ?thesis using out(2) [of f] that by (simp add: swap_lr_def)
  qed
  then show ?thesis by (simp add: p p')
qed

theorem mirrored_input_swaps_output_witness:
  "reachable stereo_mixer
   \<and> mInputChannelMask stereo_mixer = mirrored_pairs_mask True False False
   \<and> mInputChannelMask stereo_mixer \<noteq> AUDIO_CHANNEL_NONE
   \<and> {0 ..< 2 * mInputChannelCount stereo_mixer} \<inter> {4 ..< 4 + 2 * 2} = {}
   \<and> ramp_store_swapped 0 = ramp_store 1 \<and> ramp_store_swapped 1 = ramp_store 0
   \<and> ramp_store_swapped 2 = ramp_store 3 \<and> ramp_store_swapped 3 = ramp_store 2
   \<and> ramp_store_swapped 4 = ramp_store 5 \<and> ramp_store_swapped 5 = ramp_store 4
   \<and> ramp_store_swapped 6 = ramp_store 7 \<and> ramp_store_swapped 7 = ramp_store 6
   \<and> snd (process stereo_mixer ramp_store_swapped 0 4 2 True) 4
         = snd (process stereo_mixer ramp_store 0 4 2 True) 5
   \<and> snd (process stereo_mixer ramp_store_swapped 0 4 2 True) 5
         = snd (process stereo_mixer ramp_store 0 4 2 True) 4
   \<and> snd (process stereo_mixer ramp_store_swapped 0 4 2 True) 6
         = snd (process stereo_mixer ramp_store 0 4 2 True) 7
   \<and> snd (process stereo_mixer ramp_store_swapped 0 4 2 True) 7
         = snd (process stereo_mixer ramp_store 0 4 2 True) 6"
proof -
  have m: "mInputChannelMask stereo_mixer = mirrored_pairs_mask True False False"
    by (simp add: stereo_mixer_eval mirrored_pairs_mask_values)
  have n: "mInputChannelMask stereo_mixer \<noteq> AUDIO_CHANNEL_NONE"
    by (rule stereo_mixer_fields)
  have dj: "{0 ..< 2 * mInputChannelCount stereo_mixer} \<inter> {4 ..< 4 + 2 * 2} = {}"
    by (simp add: stereo_mixer_fields)
  have sep: "\<forall>f<2. \<forall>i<mInputChannelCount stereo_mixer.
          0 + f * mInputChannelCount stereo_mixer + i \<notin> {4 ..< 4 + 2 * f}"
    by (simp add: stereo_mixer_fields)
  have sw: "\<forall>k < 2 * mInputChannelCount stereo_mixer.
          ramp_store_swapped (0 + k) = ramp_store (0 + swap_lr k)"
    by (auto simp add: stereo_mixer_fields ramp_store_def ramp_store_swapped_def
        swap_lr_small dest!: less_four)
  have mi: "True \<longrightarrow> (\<forall>k < 2 * 2. ramp_store_swapped (4 + k) = ramp_store (4 + swap_lr k))"
    by (auto simp add: ramp_store_def ramp_store_swapped_def swap_lr_small swap_lr_def
        dest!: less_four)
  have q: "ramp_store_swapped 0 = ramp_store 1" "ramp_store_swapped 1 = ramp_store 0"
    "ramp_store_swapped 2 = ramp_store 3" "ramp_store_swapped 3 = ramp_store 2"
    "ramp_store_swapped 4 = ramp_store 5" "ramp_store_swapped 5 = ramp_store 4"
    "ramp_store_swapped 6 = ramp_store 7" "ramp_store_swapped 7 = ramp_store 6"
    by (simp_all add: ramp_store_def ramp_store_swapped_def swap_lr_def)
  note r = mirrored_input_swaps_output [OF reachable_stereo_mixer m n sep sw mi,
      THEN conjunct2, THEN conjunct2, rule_format]
  have k: "(0::nat) < 2 * 2" "(1::nat) < 2 * 2" "(2::nat) < 2 * 2" "(3::nat) < 2 * 2"
    by simp_all
  have e: "snd (process stereo_mixer ramp_store_swapped 0 4 2 True) 4
         = snd (process stereo_mixer ramp_store 0 4 2 True) 5"
    "snd (process stereo_mixer ramp_store_swapped 0 4 2 True) 5
         = snd (process stereo_mixer ramp_store 0 4 2 True) 4"
    "snd (process stereo_mixer ramp_store_swapped 0 4 2 True) 6
         = snd (process stereo_mixer ramp_store 0 4 2 True) 7"
    "snd (process stereo_mixer ramp_store_swapped 0 4 2 True) 7
         = snd (process stereo_mixer ramp_store 0 4 2 True) 6"
    using r [OF k(1)] r [OF k(2)] r [OF k(3)] r [OF k(4)]
    by (simp_all add: swap_lr_small)
  show ?thesis
    using reachable_stereo_mixer m n dj q e by blast
qed

text \<open>
  C2. The claim: after a successful configuration the rows at and beyond the last
  classified channel contribute nothing, and a mask of unclassified positions only mixes
  every input to \<open>[0, 0]\<close>. The code at a mixer that was configured for stereo before:
  \<^verbatim>\<open>setInputChannelMask(AUDIO_CHANNEL_OUT_TOP_CENTER)\<close> succeeds, sets row 0 to
  \<open>(0, 0)\<close> and the channel count to 1, but no classified case runs, so
  \<^verbatim>\<open>mLastValidChannelIndexPlusOne\<close> keeps the value 2 and row 1 keeps the stereo
  gain \<open>(0, 0.5)\<close>. Mixing two frames \<open>[1, 1]\<close> without accumulation then stores
  \<open>[0, 0.5]\<close> for the first frame.
\<close>

theorem unclassified_mask_after_stereo_mixes_stale_row:
  "reachable stale_mixer
   \<and> fst (setInputChannelMask stereo_mixer AUDIO_CHANNEL_OUT_TOP_CENTER)
   \<and> mInputChannelMask stale_mixer = AUDIO_CHANNEL_OUT_TOP_CENTER
   \<and> mInputChannelCount stale_mixer = 1
   \<and> mMatrix stale_mixer ! 0 = (0, 0)
   \<and> mLastValidChannelIndexPlusOne stale_mixer = 2
   \<and> mMatrix stale_mixer ! 1 = (0, 1/2)
   \<and> fst (process stale_mixer unit_store 0 8 2 False)
   \<and> snd (process stale_mixer unit_store 0 8 2 False) 8 = 0
   \<and> snd (process stale_mixer unit_store 0 8 2 False) 9 = 1/2"
proof -
  have r: "reachable stale_mixer"
    unfolding stale_mixer_def using reachable_stereo_mixer by (rule reachable_set)
  have e: "stale_mixer = \<lparr>mMatrix = (replicate 24 (0, 0))[0 := (1/2, 0), 1 := (0, 1/2), 0 := (0, 0)],
             mInputChannelMask = 0x800, mLastValidChannelIndexPlusOne = 2,
             mInputChannelCount = 1\<rparr>"
    by (simp add: stale_mixer_def stale_mixer_eval)
  have f: "mInputChannelMask stale_mixer = AUDIO_CHANNEL_OUT_TOP_CENTER"
    "mInputChannelCount stale_mixer = 1" "mMatrix stale_mixer ! 0 = (0, 0)"
    "mLastValidChannelIndexPlusOne stale_mixer = 2" "mMatrix stale_mixer ! 1 = (0, 1/2)"
    "mMatrix stale_mixer ! Suc 0 = (0, 1/2)"
    "fast_path_channels stale_mixer = None"
    "mInputChannelMask stale_mixer \<noteq> AUDIO_CHANNEL_NONE"
    by (simp_all add: e fast_path_channels_def layout_defs channel_defs)
  have p: "process stale_mixer unit_store 0 8 2 False
             = (True, matrixProcess_loop stale_mixer False unit_store 0 8 2)"
    using f(8) by (simp add: process_processSwitch processSwitch_generic [OF f(7)]
        matrixProcess_def)
  have fr: "matrixFrame stale_mixer h q = (0, 1/2 * h (q + 1))" for h q
    by (simp add: matrixFrame_sum f sum_two)
  have l: "matrixProcess_loop stale_mixer False unit_store 0 8 2
             = unit_store(8 := 0, 9 := 1/2, 10 := 0, 11 := 0)"
    by (simp add: numeral_2_eq_2 fr f Let_def mOutputChannelCount_def FCC_2_def
        unit_store_def clamp_def LIMIT_AMPLITUDE_def fun_eq_iff)
  have ok: "fst (setInputChannelMask stereo_mixer AUDIO_CHANNEL_OUT_TOP_CENTER)"
    by (simp add: stale_mixer_eval)
  have o: "fst (process stale_mixer unit_store 0 8 2 False)"
    "snd (process stale_mixer unit_store 0 8 2 False) 8 = 0"
    "snd (process stale_mixer unit_store 0 8 2 False) 9 = 1/2"
    by (simp_all add: p l)
  show ?thesis
    using r ok f(1-5) o by blast
qed

end
